theory Spec2Isabelle
  imports Main "HOL-Library.AList"
begin

section \<open>JavaScript values\<close>

text \<open>
  The dispatcher and the query normalizer handle untyped JavaScript data (request bodies,
  query strings, persistence results).  A value is modelled as a tree.  The number type
  \<open>'n\<close> is left open: the engine's numbers are IEEE doubles, and nothing below depends on
  their arithmetic.  An object lists its own enumerable properties in insertion order
  (the engine's reordering of integer-like keys is not modelled).
\<close>

datatype 'n jsval =
    JUndefined
  | JNull
  | JBool bool
  | JNum 'n
  | JStr string
  | JArr "'n jsval list"
  | JObj "(string \<times> 'n jsval) list"

text \<open>\<open>LogLevel\<close> of \<open>util/types.ts\<close>.\<close>

datatype LogLevel = informative | warning | error

text \<open>
  What a \<open>throw\<close> can carry: a \<open>ContentKittyError\<close> (level, message, status), one of the
  five Prisma error classes (class name, message), another \<open>Error\<close> instance (class name,
  message) or a value that is not an \<open>Error\<close> (and not \<open>null\<close> or \<open>undefined\<close>, which
  \<open>next\<close> does not take for an error).  The class \<open>ContentKittyError\<close> is not among the
  sources; an instance is taken to carry the three properties it is constructed with, and
  the other \<open>Error\<close> instances to carry no property \<open>status\<close> or \<open>statusCode\<close>.
\<close>

datatype 'n thrown =
    ContentKittyError LogLevel string nat
  | PrismaError string string
  | JsError string string
  | ThrownValue "'n jsval"

definition TypeError :: "string \<Rightarrow> 'n thrown" where
  "TypeError msg = JsError ''TypeError'' msg"

text \<open>
  The built-ins of the engine that the source calls and that are not part of the
  repository.  \<open>JSON_parse v\<close> is \<open>JSON.parse(v)\<close> (the argument is converted to a string
  first); \<open>None\<close> stands for any exception it raises.  \<open>ToNumber v\<close> is the numeric
  conversion behind \<open>isNaN(v)\<close> and \<open>Number(v)\<close>: \<open>Inr None\<close> is NaN, \<open>Inl\<close> an exception.
  \<open>gt_zero v\<close> is the comparison \<open>v > 0\<close>, taken to return.  \<open>error_code n\<close> is the number
  \<open>n\<close> as a natural number when \<open>n >= 400 && n < 600\<close>.
\<close>

record 'n builtins =
  JSON_parse :: "'n jsval \<Rightarrow> 'n jsval option"
  ToNumber :: "'n jsval \<Rightarrow> 'n thrown + 'n option"
  gt_zero :: "'n jsval \<Rightarrow> bool"
  error_code :: "'n \<Rightarrow> nat option"

text \<open>
  The facts about these built-ins that the theorems rely on, all consequences of the
  ECMAScript conversions: converting a string to a number never raises; an array of two
  or more strings joins to a string with a comma, which is no numeric literal; a plain
  object that does not shadow \<open>toString\<close> converts to \<open>[object Object]\<close>, which is neither
  a number nor JSON (and an object that does shadow it makes \<open>JSON.parse\<close> raise as well).
\<close>

definition conforms :: "'n builtins \<Rightarrow> bool" where
  "conforms B \<longleftrightarrow>
     (\<forall>s. \<not> isl (ToNumber B (JStr s))) \<and>
     (\<forall>ss. 2 \<le> length ss \<longrightarrow> ToNumber B (JArr (map JStr ss)) = Inr None) \<and>
     (\<forall>m. ''toString'' \<notin> fst ` set m \<longrightarrow> ToNumber B (JObj m) = Inr None) \<and>
     (\<forall>m. JSON_parse B (JObj m) = None)"

section \<open>Query normalizer (\<open>server/middlewares/mapQuery.ts\<close>)\<close>

text \<open>\<open>String.prototype.split\<close> with a one-character separator.\<close>

fun split :: "char \<Rightarrow> string \<Rightarrow> string list" where
  "split c [] = [[]]"
| "split c (x # xs) =
     (if x = c then [] # split c xs
      else (x # hd (split c xs)) # tl (split c xs))"

text \<open>
  \<open>newValue.includes(sep)\<close>: a substring test on a string, a membership test on an array;
  no other value has a callable \<open>includes\<close>.
\<close>

definition js_includes :: "'n jsval \<Rightarrow> char \<Rightarrow> 'n thrown + bool" where
  "js_includes v c =
     (case v of
        JStr s \<Rightarrow> Inr (c \<in> set s)
      | JArr xs \<Rightarrow> Inr (JStr [c] \<in> set xs)
      | _ \<Rightarrow> Inl (TypeError ''newValue.includes is not a function''))"

text \<open>\<open>newValue.split(sep)\<close>: only strings have \<open>split\<close>.\<close>

definition js_split :: "'n jsval \<Rightarrow> char \<Rightarrow> 'n thrown + string list" where
  "js_split v c =
     (case v of
        JStr s \<Rightarrow> Inr (split c s)
      | _ \<Rightarrow> Inl (TypeError ''newValue.split is not a function''))"

text \<open>
  The entry \<open>[key, value]\<close> that \<open>Object.fromEntries\<close> and the destructuring
  \<open>[subKey, subValue]\<close> read from an array of strings: elements 0 and 1, \<open>undefined\<close> where
  the array is shorter.
\<close>

fun pair_entry :: "string list \<Rightarrow> string \<times> 'n jsval" where
  "pair_entry [] = (''undefined'', JUndefined)"
| "pair_entry [k] = (k, JUndefined)"
| "pair_entry (k # v # _) = (k, JStr v)"

text \<open>\<open>Object.fromEntries\<close>: a later entry replaces the value of an earlier equal key.\<close>

definition fromEntries :: "(string \<times> 'v) list \<Rightarrow> (string \<times> 'v) list" where
  "fromEntries es = foldl (\<lambda>m (k, v). AList.update k v m) [] es"

definition malformed :: "'n thrown" where
  "malformed = ContentKittyError informative ''Malformed JSON in the WHERE clause.'' 400"

text \<open>Lines 8 to 29 of \<open>mapQuery.ts\<close>: the chain of structural checks on one entry.\<close>

definition restructure :: "'n builtins \<Rightarrow> string \<Rightarrow> 'n jsval \<Rightarrow> 'n thrown + 'n jsval" where
  "restructure B key newValue =
     (if key = ''where'' then
        (case JSON_parse B newValue of
           None \<Rightarrow> Inl malformed
         | Some p \<Rightarrow> Inr p)
      else
        (case js_includes newValue CHR '','' of
           Inl e \<Rightarrow> Inl e
         | Inr True \<Rightarrow>
             (case js_split newValue CHR '','' of
                Inl e \<Rightarrow> Inl e
              | Inr parts \<Rightarrow>
                  if key = ''distinct'' then Inr (JArr (map JStr parts))
                  else Inr (JObj (fromEntries (map (\<lambda>subPair. pair_entry (split CHR ''-'' subPair)) parts))))
         | Inr False \<Rightarrow>
             (case js_includes newValue CHR ''-'' of
                Inl e \<Rightarrow> Inl e
              | Inr True \<Rightarrow>
                  (case js_split newValue CHR ''-'' of
                     Inl e \<Rightarrow> Inl e
                   | Inr parts \<Rightarrow> Inr (JObj [pair_entry parts]))
              | Inr False \<Rightarrow> Inr newValue)))"

text \<open>Line 31: \<open>newValue = isNaN(newValue) ? newValue : Number(newValue)\<close>.\<close>

definition coerce :: "'n builtins \<Rightarrow> 'n jsval \<Rightarrow> 'n thrown + 'n jsval" where
  "coerce B newValue =
     (case ToNumber B newValue of
        Inl e \<Rightarrow> Inl e
      | Inr None \<Rightarrow> Inr newValue
      | Inr (Some n) \<Rightarrow> Inr (JNum n))"

definition mapEntry :: "'n builtins \<Rightarrow> string \<Rightarrow> 'n jsval \<Rightarrow> 'n thrown + 'n jsval" where
  "mapEntry B key v =
     (case restructure B key v of
        Inl e \<Rightarrow> Inl e
      | Inr newValue \<Rightarrow> coerce B newValue)"

text \<open>\<open>Object.entries(query).map(...)\<close>: the entries in order, stopping at the first throw.\<close>

fun mapEntries :: "'n builtins \<Rightarrow> (string \<times> 'n jsval) list \<Rightarrow> 'n thrown + (string \<times> 'n jsval) list" where
  "mapEntries B [] = Inr []"
| "mapEntries B ((key, v) # rest) =
     (case mapEntry B key v of
        Inl e \<Rightarrow> Inl e
      | Inr newValue \<Rightarrow>
          (case mapEntries B rest of
             Inl e \<Rightarrow> Inl e
           | Inr done \<Rightarrow> Inr ((key, newValue) # done)))"

definition mapQuery :: "'n builtins \<Rightarrow> (string \<times> 'n jsval) list \<Rightarrow> 'n thrown + (string \<times> 'n jsval) list" where
  "mapQuery B query =
     (case mapEntries B query of
        Inl e \<Rightarrow> Inl e
      | Inr es \<Rightarrow> Inr (fromEntries es))"

text \<open>
  No entry of the query makes the normalizer raise, apart from \<open>where\<close> entries that
  \<open>JSON.parse\<close> rejects.
\<close>

definition only_where_raises :: "'n builtins \<Rightarrow> (string \<times> 'n jsval) list \<Rightarrow> bool" where
  "only_where_raises B q =
     list_all (\<lambda>e. (fst e = ''where'' \<and> JSON_parse B (snd e) = None)
                    \<or> \<not> isl (mapEntry B (fst e) (snd e))) q"

section \<open>Data model (\<open>util/types.ts\<close>)\<close>

datatype Method = GET | POST | PUT | DELETE | PATCH | HEAD | OPTIONS | TRACE | CONNECT

datatype operation = Create | Read | Update | Delete

text \<open>\<open>keyof CRUDHooks\<close>, the values of \<open>ctx.util.currentHook\<close>.\<close>

datatype hook_phase = BeforeOperation | ValidateInput | ModifyInput | AfterOperation

text \<open>
  Modelled from the spec: the table \<open>flippedCrudMapping\<close> is imported from \<open>util/index.js\<close>,
  which is not among the sources; the specification gives it as
  \<open>GET\<rightarrow>read, POST\<rightarrow>create, PUT\<rightarrow>update, DELETE\<rightarrow>delete\<close>.  Indexing it with another
  method yields \<open>undefined\<close>, here \<open>None\<close>.
\<close>

fun flippedCrudMapping :: "Method \<Rightarrow> operation option" where
  "flippedCrudMapping GET = Some Read"
| "flippedCrudMapping POST = Some Create"
| "flippedCrudMapping PUT = Some Update"
| "flippedCrudMapping DELETE = Some Delete"
| "flippedCrudMapping _ = None"

text \<open>
  The data of the shared \<open>Context\<close> object.  The persistence handle, the collection registry
  and the \<open>express\<close> handles are not data that the dispatcher reads back; they appear below
  as the parameters of the route.
\<close>

record 'n Context =
  currentHook :: hook_phase
  customVars :: "(string \<times> 'n jsval) list"
  sessionData :: "'n jsval"
  bools :: "(string \<times> bool) list"

text \<open>
  \<open>operationArgs\<close> (lines 184 to 189 of the server) as a hook reads it: the values of its
  four properties.
\<close>

record 'n operationArgs =
  existingData :: "'n jsval"
  inputData :: "'n jsval"
  operation :: "operation option"
  ctx :: "'n Context"

text \<open>
  A property of \<open>operationArgs\<close> that the handler sets to an object it keeps using: the
  property still refers to that object, or a hook has assigned another value to it.
\<close>

datatype 'a slot = Original | Replaced 'a

text \<open>
  The objects of one request that plugins and hooks can change.  \<open>shared_ctx\<close> is the
  Context object, which the handler and the plugins reach through the constant \<open>ctx\<close>.
  \<open>request_body\<close> is the value of \<open>req.body\<close>, which the handler reads through its constant
  \<open>inputData\<close> (line 178).  The four \<open>args\<close> fields are the properties of the object
  \<open>operationArgs\<close>, which the handler builds once and never reads back: \<open>inputData\<close> and
  \<open>ctx\<close> start as references to the request body and to the shared Context.  So a hook
  that changes the request body in place changes what the handler persists, and a hook
  that assigns another object to \<open>operationArgs.inputData\<close> changes only what later hooks
  read.
\<close>

record 'n objects =
  shared_ctx :: "'n Context"
  request_body :: "'n jsval"
  args_existingData :: "'n jsval"
  args_inputData :: "'n jsval slot"
  args_operation :: "operation option"
  args_ctx :: "'n Context slot"

text \<open>What a hook reads from \<open>operationArgs\<close>.\<close>

definition seen :: "'n objects \<Rightarrow> 'n operationArgs" where
  "seen a =
     \<lparr> existingData = args_existingData a,
       inputData = (case args_inputData a of Original \<Rightarrow> request_body a | Replaced v \<Rightarrow> v),
       operation = args_operation a,
       ctx = (case args_ctx a of Original \<Rightarrow> shared_ctx a | Replaced c \<Rightarrow> c) \<rparr>"

text \<open>
  The constant \<open>inputData\<close> denotes the same value throughout the request.  A hook can
  change the properties of an object, or the elements of an array, in place; it cannot
  turn the value into another one.  \<open>in_place old new\<close> is what the constant denotes after
  a hook that would leave \<open>new\<close> where \<open>old\<close> was.
\<close>

definition in_place :: "'n jsval \<Rightarrow> 'n jsval \<Rightarrow> 'n jsval" where
  "in_place old new =
     (case old of
        JObj m \<Rightarrow> (case new of JObj m' \<Rightarrow> new | _ \<Rightarrow> old)
      | JArr xs \<Rightarrow> (case new of JArr ys \<Rightarrow> new | _ \<Rightarrow> old)
      | _ \<Rightarrow> old)"

text \<open>
  A hook is called with \<open>operationArgs\<close>; it raises, or returns a value and leaves the
  objects changed.  A plugin function is called with \<open>ctx\<close>; it raises, or returns a Context
  and leaves the shared Context changed.  The handler awaits a hook, so a rejected promise
  is a raise; it does not await a plugin function, which is taken to be synchronous here.
  Plugins and hooks are taken to leave the response alone, and plugins the request.
\<close>

type_synonym 'n Hook = "'n objects \<Rightarrow> 'n thrown + 'n jsval \<times> 'n objects"

type_synonym 'n PluginFn = "'n Context \<Rightarrow> 'n thrown + 'n Context \<times> 'n Context"

record 'n CRUDHooks =
  beforeOperation :: "'n Hook list"
  validateInput :: "'n Hook list"
  modifyInput :: "'n Hook list"
  afterOperation :: "'n Hook list"

record 'n DatabasePlugin =
  active :: bool
  title :: string
  author :: string
  version :: string
  fn :: "'n PluginFn"

record Webhook =
  name :: string
  api :: string
  onOperation :: "operation list"
  headers :: "(string \<times> string) list"

record 'n EventTriggerPayload =
  timestamp :: string
  data :: "'n jsval"
  event :: "operation option"
  collection :: string

text \<open>The calls on the persistence handle \<open>query = prisma[cKey]\<close>, with their arguments.\<close>

datatype 'n dbcall =
    q_findMany "(string \<times> 'n jsval) list"
  | q_create (call_data: "'n jsval") (call_select: "'n jsval")
  | q_createMany (call_data: "'n jsval") (call_skipDuplicates: "'n jsval")
  | q_update (call_data: "'n jsval") (call_where: "'n jsval")
  | q_updateMany (call_data: "'n jsval") (call_where: "'n jsval")
  | q_delete (call_where: "'n jsval")
  | q_deleteMany (call_where: "'n jsval")

text \<open>
  What a request does that can be observed from outside, in order.  A plugin call is
  recorded with the Context it is given, a hook call with what the hook reads from
  \<open>operationArgs\<close>.
\<close>

datatype 'n event =
    PluginCall string hook_phase "'n Context"
  | HookCall hook_phase nat "'n operationArgs"
  | DbCall "'n dbcall"
  | Respond nat "'n jsval"
  | WebhookTrigger string "'n EventTriggerPayload"

text \<open>
  What the closure of one collection route captures (lines 168 to 174): the collection key,
  its hooks and webhooks, the global webhooks, the active plugins, the default template
  \<open>models[cKey]\<close> and the persistence handle.
\<close>

record 'n route =
  cKey :: string
  hooks :: "'n CRUDHooks"
  webhooks :: "Webhook list"
  globalWebhooks :: "Webhook list"
  activePlugins :: "'n DatabasePlugin list"
  models_cKey :: "'n jsval"
  query :: "'n dbcall \<Rightarrow> 'n thrown + 'n jsval"

text \<open>What the handler reads from \<open>req\<close>.\<close>

record 'n request =
  req_method :: Method
  req_query :: "(string \<times> 'n jsval) list"
  req_body :: "'n jsval"

text \<open>The handler's progress: the events so far, the objects of the request, \<open>resultData\<close>.\<close>

record 'n pstate =
  trace :: "'n event list"
  objs :: "'n objects"
  resultData :: "'n jsval"

type_synonym 'n step = "'n pstate \<Rightarrow> 'n thrown option \<times> 'n pstate"

section \<open>Operation dispatcher (the collection handler of the server, lines 176 to 273)\<close>

definition emit :: "'n event \<Rightarrow> 'n pstate \<Rightarrow> 'n pstate" where
  "emit e s = s\<lparr>trace := trace s @ [e]\<rparr>"

text \<open>Sequencing inside the \<open>try\<close> block: a throw skips everything that follows.\<close>

definition and_then :: "'n step \<Rightarrow> 'n step \<Rightarrow> 'n step" where
  "and_then a b s =
     (case a s of
        (Some e, s') \<Rightarrow> (Some e, s')
      | (None, s') \<Rightarrow> b s')"

text \<open>\<open>ctx.util.currentHook = ...\<close>\<close>

definition set_currentHook :: "hook_phase \<Rightarrow> 'n step" where
  "set_currentHook ph s =
     (None, s\<lparr>objs := (objs s)\<lparr>shared_ctx := (shared_ctx (objs s))\<lparr>currentHook := ph\<rparr>\<rparr>\<rparr>)"

text \<open>\<open>for (const obj of activePlugins) { obj.fn(ctx); }\<close>: the returned value is dropped.\<close>

fun run_plugins :: "hook_phase \<Rightarrow> 'n DatabasePlugin list \<Rightarrow> 'n step" where
  "run_plugins ph [] s = (None, s)"
| "run_plugins ph (obj # rest) s =
     (case fn obj (shared_ctx (objs s)) of
        Inl e \<Rightarrow> (Some e, emit (PluginCall (title obj) ph (shared_ctx (objs s))) s)
      | Inr (returned, c) \<Rightarrow>
          run_plugins ph rest
            ((emit (PluginCall (title obj) ph (shared_ctx (objs s))) s)
               \<lparr>objs := (objs s)\<lparr>shared_ctx := c\<rparr>\<rparr>))"

text \<open>
  The objects after a hook that returned and would leave them as \<open>a'\<close>: the request body
  is changed in place only.
\<close>

definition left_by :: "'n objects \<Rightarrow> 'n objects \<Rightarrow> 'n objects" where
  "left_by a a' = a'\<lparr>request_body := in_place (request_body a) (request_body a')\<rparr>"

text \<open>
  \<open>for (const op of hooks || []) { await op(operationArgs); }\<close>: the returned value is
  dropped.  The number is the position of the hook in its list.
\<close>

fun run_hooks :: "hook_phase \<Rightarrow> nat \<Rightarrow> 'n Hook list \<Rightarrow> 'n step" where
  "run_hooks ph i [] s = (None, s)"
| "run_hooks ph i (op # rest) s =
     (case op (objs s) of
        Inl e \<Rightarrow> (Some e, emit (HookCall ph i (seen (objs s))) s)
      | Inr (returned, a) \<Rightarrow>
          run_hooks ph (Suc i) rest
            ((emit (HookCall ph i (seen (objs s))) s)\<lparr>objs := left_by (objs s) a\<rparr>))"

text \<open>
  One hook phase, written out four times in the handler (lines 191-197, 203-209, 211-217,
  248-254): set the cursor, run the active plugins, run the hooks of the phase.
\<close>

definition run_phase :: "hook_phase \<Rightarrow> 'n DatabasePlugin list \<Rightarrow> 'n Hook list \<Rightarrow> 'n step" where
  "run_phase ph plugins hs =
     and_then (set_currentHook ph) (and_then (run_plugins ph plugins) (run_hooks ph 0 hs))"

text \<open>\<open>resultData = await query.f(args)\<close>\<close>

definition call :: "'n route \<Rightarrow> 'n dbcall \<Rightarrow> 'n step" where
  "call R c s =
     (case query R c of
        Inl e \<Rightarrow> (Some e, emit (DbCall c) s)
      | Inr r \<Rightarrow> (None, (emit (DbCall c) s)\<lparr>resultData := r\<rparr>))"

text \<open>\<open>undefined\<close> and \<open>null\<close>, the values that have no properties to read.\<close>

definition nullish :: "'n jsval \<Rightarrow> bool" where
  "nullish v \<longleftrightarrow> v = JUndefined \<or> v = JNull"

text \<open>
  Reading a data property \<open>v.k\<close> of a value that is neither \<open>null\<close> nor \<open>undefined\<close>: an own
  property of an object, \<open>undefined\<close> otherwise.
\<close>

definition get_prop :: "'n jsval \<Rightarrow> string \<Rightarrow> 'n jsval" where
  "get_prop v k =
     (case v of
        JObj m \<Rightarrow> (case map_of m k of Some x \<Rightarrow> x | None \<Rightarrow> JUndefined)
      | _ \<Rightarrow> JUndefined)"

fun show_nat :: "nat \<Rightarrow> string" where
  "show_nat n =
     (if n < 10 then [char_of (48 + n)]
      else show_nat (n div 10) @ [char_of (48 + n mod 10)])"

declare show_nat.simps [simp del]

text \<open>
  The own enumerable properties that \<open>Object.assign\<close> copies from a source: those of an
  object, the indexed elements of an array, the indexed characters of a string, none of
  another value.
\<close>

definition own_props :: "'n jsval \<Rightarrow> (string \<times> 'n jsval) list" where
  "own_props v =
     (case v of
        JObj m \<Rightarrow> m
      | JArr xs \<Rightarrow> zip (map show_nat [0..<length xs]) xs
      | JStr s \<Rightarrow> zip (map show_nat [0..<length s]) (map (\<lambda>c. JStr [c]) s)
      | _ \<Rightarrow> [])"

definition assign :: "(string \<times> 'n jsval) list \<Rightarrow> 'n jsval \<Rightarrow> (string \<times> 'n jsval) list" where
  "assign target source = foldl (\<lambda>m (k, v). AList.update k v m) target (own_props source)"

text \<open>\<open>Object.assign({}, models[cKey], x)\<close>\<close>

definition merge :: "'n jsval \<Rightarrow> 'n jsval \<Rightarrow> 'n jsval" where
  "merge model x = JObj (assign (assign [] model) x)"

text \<open>Lines 219 to 222.\<close>

definition mergeData :: "'n jsval \<Rightarrow> 'n jsval \<Rightarrow> 'n jsval" where
  "mergeData model d =
     (case d of
        JArr xs \<Rightarrow> JArr (map (merge model) xs)
      | _ \<Rightarrow> merge model d)"

definition isArray :: "'n jsval \<Rightarrow> bool" where
  "isArray d = (case d of JArr xs \<Rightarrow> True | _ \<Rightarrow> False)"

text \<open>
  Lines 219 to 245: the write after the input hooks.  \<open>inputData\<close> is the handler's
  constant, the request body; reading \<open>inputData.data\<close> raises when it is \<open>undefined\<close> or
  \<open>null\<close>.
\<close>

definition write_data :: "'n route \<Rightarrow> Method \<Rightarrow> 'n step" where
  "write_data R reqMethod s =
     (let body = request_body (objs s) in
      if body = JUndefined
      then (Some (TypeError ''Cannot read properties of undefined (reading data)''), s)
      else if body = JNull
      then (Some (TypeError ''Cannot read properties of null (reading data)''), s)
      else
        let isArr = isArray (get_prop body ''data'');
            merged = mergeData (models_cKey R) (get_prop body ''data'')
        in if reqMethod = POST then
             (if isArr then call R (q_createMany merged (get_prop body ''skipDuplicates'')) s
              else call R (q_create merged (get_prop body ''select'')) s)
           else if reqMethod = PUT then
             call R ((if isArr then q_updateMany else q_update) merged (get_prop body ''where'')) s
           else if reqMethod = DELETE then
             call R ((if isArr then q_deleteMany else q_delete) (get_prop body ''where'')) s
           else (None, s))"

text \<open>Lines 199 to 246.\<close>

definition persist :: "'n builtins \<Rightarrow> 'n route \<Rightarrow> 'n request \<Rightarrow> 'n step" where
  "persist B R req s =
     (if req_method req = GET then
        (case mapQuery B (req_query req) of
           Inl e \<Rightarrow> (Some e, s)
         | Inr mappedQuery \<Rightarrow> call R (q_findMany mappedQuery) s)
      else
        and_then (run_phase ValidateInput (activePlugins R) (validateInput (hooks R)))
          (and_then (run_phase ModifyInput (activePlugins R) (modifyInput (hooks R)))
             (write_data R (req_method req))) s)"

text \<open>
  \<open>resultData.length > 0\<close>: the number of elements of an array or of characters of a string,
  the own property \<open>length\<close> of an object if it has one; reading \<open>length\<close> of \<open>null\<close> or
  \<open>undefined\<close> raises.
\<close>

definition length_gt_zero :: "'n builtins \<Rightarrow> 'n jsval \<Rightarrow> 'n thrown + bool" where
  "length_gt_zero B v =
     (case v of
        JUndefined \<Rightarrow> Inl (TypeError ''Cannot read properties of undefined (reading length)'')
      | JNull \<Rightarrow> Inl (TypeError ''Cannot read properties of null (reading length)'')
      | JArr xs \<Rightarrow> Inr (xs \<noteq> [])
      | JStr s \<Rightarrow> Inr (s \<noteq> [])
      | JObj m \<Rightarrow> Inr (case map_of m ''length'' of Some l \<Rightarrow> gt_zero B l | None \<Rightarrow> False)
      | _ \<Rightarrow> Inr False)"

definition mergedWebhooks :: "'n route \<Rightarrow> Webhook list" where
  "mergedWebhooks R = globalWebhooks R @ webhooks R"

text \<open>\<open>obj.onOperation.includes(flippedCrudMapping[reqMethod])\<close>\<close>

definition fires_on :: "Webhook \<Rightarrow> operation option \<Rightarrow> bool" where
  "fires_on obj ev = (case ev of None \<Rightarrow> False | Some x \<Rightarrow> x \<in> set (onOperation obj))"

definition webhookTriggerPayload ::
    "'n route \<Rightarrow> Method \<Rightarrow> string \<Rightarrow> 'n jsval \<Rightarrow> bool \<Rightarrow> 'n EventTriggerPayload" where
  "webhookTriggerPayload R reqMethod now result nonempty =
     \<lparr> timestamp = now,
       data = (if nonempty then result else JNull),
       event = flippedCrudMapping reqMethod,
       collection = cKey R \<rparr>"

text \<open>
  Lines 256 to 269: the response, the payload, the fan-out.  \<open>now\<close> is what
  \<open>new Date().toISOString()\<close> returns.  Writing the response and handing a payload to
  \<open>webhook(obj).trigger\<close> are calls into code outside the handler; they are recorded as
  events and taken to return.
\<close>

definition respond :: "'n builtins \<Rightarrow> 'n route \<Rightarrow> Method \<Rightarrow> string \<Rightarrow> 'n step" where
  "respond B R reqMethod now s =
     (let s1 = emit (Respond 200 (resultData s)) s in
      case length_gt_zero B (resultData s) of
        Inl e \<Rightarrow> (Some e, s1)
      | Inr nonempty \<Rightarrow>
          (None,
           foldl (\<lambda>t obj.
                    if fires_on obj (flippedCrudMapping reqMethod)
                    then emit (WebhookTrigger (name obj)
                                 (webhookTriggerPayload R reqMethod now (resultData s) nonempty)) t
                    else t)
             s1 (mergedWebhooks R)))"

text \<open>The state at the start of the \<open>try\<close> block (lines 178 to 189).\<close>

definition start :: "'n Context \<Rightarrow> 'n request \<Rightarrow> 'n pstate" where
  "start c req =
     \<lparr> trace = [],
       objs = \<lparr> shared_ctx = c,
                request_body = req_body req,
                args_existingData = JUndefined,
                args_inputData = Original,
                args_operation = flippedCrudMapping (req_method req),
                args_ctx = Original \<rparr>,
       resultData = JArr [] \<rparr>"

text \<open>
  The handler.  The first component of the result is the error passed to \<open>next(err)\<close>, if
  any; \<open>c\<close> is the content of the shared Context when the request arrives.
\<close>

definition handler ::
    "'n builtins \<Rightarrow> 'n route \<Rightarrow> string \<Rightarrow> 'n Context \<Rightarrow> 'n request \<Rightarrow> 'n thrown option \<times> 'n pstate" where
  "handler B R now c req =
     and_then (run_phase BeforeOperation (activePlugins R) (beforeOperation (hooks R)))
       (and_then (persist B R req)
          (and_then (run_phase AfterOperation (activePlugins R) (afterOperation (hooks R)))
             (respond B R (req_method req) now)))
       (start c req)"

section \<open>Errors (\<open>errHandler\<close> and what Express does with \<open>next(err)\<close>)\<close>

text \<open>What answers a request: a JSON body, or the error page of Express's default handler.\<close>

datatype 'n reply = JsonBody "'n jsval" | DefaultErrorPage

record 'n response =
  status :: nat
  content :: "'n reply"

definition prismaErrors :: "string list" where
  "prismaErrors =
     [''PrismaClientInitializationError'', ''PrismaClientKnownRequestError'',
      ''PrismaClientRustPanicError'', ''PrismaClientUnknownRequestError'',
      ''PrismaClientValidationError'']"

text \<open>\<open>err.constructor.name\<close> for an error object; a thrown value of another kind has none of the Prisma names.\<close>

definition isPrismaErr :: "'n thrown \<Rightarrow> bool" where
  "isPrismaErr err =
     (case err of
        PrismaError cname msg \<Rightarrow> cname \<in> set prismaErrors
      | JsError cname msg \<Rightarrow> cname \<in> set prismaErrors
      | _ \<Rightarrow> False)"

text \<open>\<open>err instanceof Error || err instanceof SystemPandaError ? err.message : err\<close>\<close>

definition message_of :: "'n thrown \<Rightarrow> 'n jsval" where
  "message_of err =
     (case err of
        ContentKittyError lvl msg st \<Rightarrow> JStr msg
      | PrismaError cname msg \<Rightarrow> JStr msg
      | JsError cname msg \<Rightarrow> JStr msg
      | ThrownValue v \<Rightarrow> v)"

text \<open>
  The body of \<open>errHandler\<close> (lines 14 to 36), for an error \<open>err\<close> and \<open>res.headersSent\<close>: the
  response it writes, if any, and the errors it hands to \<open>logger(logfile, err)\<close>.  Both
  branches of the test on \<open>isPrismaErr\<close> answer with status 500.
\<close>

definition errHandler :: "'n thrown \<Rightarrow> bool \<Rightarrow> 'n response option \<times> 'n thrown list" where
  "errHandler err headersSent =
     ((if \<not> headersSent then
         (if isPrismaErr err
          then Some \<lparr> status = 500,
                      content = JsonBody (JObj [(''success'', JBool False), (''message'', message_of err)]) \<rparr>
          else Some \<lparr> status = 500,
                      content = JsonBody (JObj [(''success'', JBool False), (''message'', message_of err)]) \<rparr>)
       else None),
      [err])"

text \<open>The number of parameters \<open>errHandler\<close> is declared with (line 13): \<open>(err, req, res)\<close>.\<close>

definition errHandler_params :: nat where
  "errHandler_params = 3"

text \<open>
  Express, which is not part of the repository.  The status its default handler reads
  from an error: the property \<open>status\<close>, or else \<open>statusCode\<close>, when that is a number from 400
  to 599, and 500 otherwise.
\<close>

definition value_status :: "'n builtins \<Rightarrow> 'n jsval \<Rightarrow> nat option" where
  "value_status B v =
     (case v of
        JObj m \<Rightarrow>
          (case (case map_of m ''status'' of Some (JNum n) \<Rightarrow> error_code B n | _ \<Rightarrow> None) of
             Some k \<Rightarrow> Some k
           | None \<Rightarrow> (case map_of m ''statusCode'' of Some (JNum n) \<Rightarrow> error_code B n | _ \<Rightarrow> None))
      | _ \<Rightarrow> None)"

definition error_status :: "'n builtins \<Rightarrow> 'n thrown \<Rightarrow> nat" where
  "error_status B err =
     (case err of
        ContentKittyError lvl msg st \<Rightarrow> if 400 \<le> st \<and> st < 600 then st else 500
      | PrismaError cname msg \<Rightarrow> 500
      | JsError cname msg \<Rightarrow> 500
      | ThrownValue v \<Rightarrow> (case value_status B v of Some k \<Rightarrow> k | None \<Rightarrow> 500))"

text \<open>
  The default handler answers with that status and its own error page unless a response
  has been started, and writes nothing to the log file of the application.
\<close>

definition finalhandler :: "'n builtins \<Rightarrow> 'n thrown \<Rightarrow> bool \<Rightarrow> 'n response option \<times> 'n thrown list" where
  "finalhandler B err headersSent =
     ((if headersSent then None
       else Some \<lparr> status = error_status B err, content = DefaultErrorPage \<rparr>),
      [])"

text \<open>
  \<open>next(err)\<close> (line 271).  The only middleware registered after the routes is
  \<open>errHandler\<close> (lines 72 and 281).  Express hands an error to a middleware only if the
  middleware is declared with four parameters, and to its default handler when there is
  none.
\<close>

definition next_err :: "'n builtins \<Rightarrow> 'n thrown \<Rightarrow> bool \<Rightarrow> 'n response option \<times> 'n thrown list" where
  "next_err B err headersSent =
     (if errHandler_params = 4 then errHandler err headersSent
      else finalhandler B err headersSent)"

text \<open>\<open>res.headersSent\<close>: the handler has written its response.\<close>

fun headersSent :: "'n event list \<Rightarrow> bool" where
  "headersSent [] = False"
| "headersSent (Respond st b # es) = True"
| "headersSent (_ # es) = headersSent es"

text \<open>
  A request that reaches the handler of a collection: the events of the handler and, if
  it passed an error to \<open>next\<close>, the response to the error and what was logged.
\<close>

record 'n outcome =
  events :: "'n event list"
  error_response :: "'n response option"
  logged :: "'n thrown list"

definition serve ::
    "'n builtins \<Rightarrow> 'n route \<Rightarrow> string \<Rightarrow> 'n Context \<Rightarrow> 'n request \<Rightarrow> 'n outcome" where
  "serve B R now c req =
     (case handler B R now c req of
        (None, s) \<Rightarrow> \<lparr> events = trace s, error_response = None, logged = [] \<rparr>
      | (Some err, s) \<Rightarrow>
          \<lparr> events = trace s,
            error_response = fst (next_err B err (headersSent (trace s))),
            logged = snd (next_err B err (headersSent (trace s))) \<rparr>)"

section \<open>An instance of the built-ins over the integers\<close>

text \<open>
  A concrete engine for evaluating the model on examples: numbers are integers, numeric
  literals are optionally signed decimal integers (a fraction, an exponent, a radix
  prefix or \<open>Infinity\<close> is read as NaN here), and the JSON reader accepts objects, arrays,
  strings without escapes, integers and the three literals.  The universal theorems below
  hold for every engine; this one is used at inputs on which it agrees with ECMAScript.
\<close>

definition is_ws :: "char \<Rightarrow> bool" where
  "is_ws c \<longleftrightarrow> c \<in> set [CHR '' '', CHR 0x09, CHR 0x0A, CHR 0x0B, CHR 0x0C, CHR 0x0D]"

definition is_digit :: "char \<Rightarrow> bool" where
  "is_digit c \<longleftrightarrow> c \<in> set ''0123456789''"

definition digit_val :: "char \<Rightarrow> nat" where
  "digit_val c = of_char c - 48"

definition nat_of_digits :: "string \<Rightarrow> nat" where
  "nat_of_digits ds = foldl (\<lambda>a c. 10 * a + digit_val c) 0 ds"

definition trim :: "string \<Rightarrow> string" where
  "trim s = rev (dropWhile is_ws (rev (dropWhile is_ws s)))"

text \<open>The numeric value of a string (\<open>StringToNumber\<close>): \<open>None\<close> is NaN.\<close>

definition dec_literal :: "string \<Rightarrow> int option" where
  "dec_literal s =
     (case trim s of
        [] \<Rightarrow> Some 0
      | c # ds \<Rightarrow>
          if (c = CHR ''-'' \<or> c = CHR ''+'') \<and> ds \<noteq> [] \<and> list_all is_digit ds
          then Some ((if c = CHR ''-'' then - 1 else 1) * int (nat_of_digits ds))
          else if list_all is_digit (c # ds) then Some (int (nat_of_digits (c # ds)))
          else None)"

definition show_int :: "int \<Rightarrow> string" where
  "show_int i = (if i < 0 then CHR ''-'' # show_nat (nat (- i)) else show_nat (nat i))"

fun join_comma :: "string list \<Rightarrow> string" where
  "join_comma [] = []"
| "join_comma [x] = x"
| "join_comma (x # y # ys) = x @ CHR '','' # join_comma (y # ys)"

text \<open>
  \<open>ToString\<close>: an array joins its elements with commas (\<open>null\<close> and \<open>undefined\<close> elements
  as the empty string), a plain object is \<open>[object Object]\<close>.
\<close>

fun ToString_int :: "int jsval \<Rightarrow> string"
  and elem_strings :: "int jsval list \<Rightarrow> string list" where
  "ToString_int JUndefined = ''undefined''"
| "ToString_int JNull = ''null''"
| "ToString_int (JBool b) = (if b then ''true'' else ''false'')"
| "ToString_int (JNum n) = show_int n"
| "ToString_int (JStr s) = s"
| "ToString_int (JArr xs) = join_comma (elem_strings xs)"
| "ToString_int (JObj m) = ''[object Object]''"
| "elem_strings [] = []"
| "elem_strings (x # xs) =
     (if x = JUndefined \<or> x = JNull then [] else ToString_int x) # elem_strings xs"

text \<open>
  An object with an own property \<open>toString\<close> (never callable in this data model) cannot be
  converted to a primitive, nor can an array that holds one: the conversion raises.
\<close>

fun shadows :: "'n jsval \<Rightarrow> bool" where
  "shadows (JObj m) = (''toString'' \<in> set (map fst m))"
| "shadows (JArr xs) = list_ex shadows xs"
| "shadows _ = False"

definition ToNumber_int :: "int jsval \<Rightarrow> int thrown + int option" where
  "ToNumber_int v =
     (if shadows v then Inl (TypeError ''Cannot convert object to primitive value'')
      else Inr (case v of
                  JUndefined \<Rightarrow> None
                | JNull \<Rightarrow> Some 0
                | JBool b \<Rightarrow> Some (if b then 1 else 0)
                | JNum n \<Rightarrow> Some n
                | _ \<Rightarrow> dec_literal (ToString_int v)))"

definition gt_zero_int :: "int jsval \<Rightarrow> bool" where
  "gt_zero_int v = (case ToNumber_int v of Inr (Some n) \<Rightarrow> 0 < n | _ \<Rightarrow> False)"

subsection \<open>A JSON reader\<close>

definition is_json_ws :: "char \<Rightarrow> bool" where
  "is_json_ws c \<longleftrightarrow> c \<in> set [CHR '' '', CHR 0x09, CHR 0x0A, CHR 0x0D]"

definition skip_ws :: "string \<Rightarrow> string" where
  "skip_ws = dropWhile is_json_ws"

text \<open>\<open>expect c cs\<close>: the rest of \<open>cs\<close> after optional white space and the character \<open>c\<close>.\<close>

definition expect :: "char \<Rightarrow> string \<Rightarrow> string option" where
  "expect c cs =
     (case skip_ws cs of
        [] \<Rightarrow> None
      | x # r \<Rightarrow> if x = c then Some r else None)"

text \<open>The characters of a string up to its closing quote; the opening quote has been read.\<close>

fun parse_string :: "string \<Rightarrow> (string \<times> string) option" where
  "parse_string [] = None"
| "parse_string (c # cs) =
     (if c = CHR 0x22 then Some ([], cs)
      else if c = CHR 0x5C \<or> (of_char c :: nat) < 32 then None
      else (case parse_string cs of
              None \<Rightarrow> None
            | Some (s, r) \<Rightarrow> Some (c # s, r)))"

definition parse_number :: "string \<Rightarrow> (int \<times> string) option" where
  "parse_number cs =
     (let neg = (cs \<noteq> [] \<and> hd cs = CHR ''-'');
          ds = (if neg then tl cs else cs);
          digs = takeWhile is_digit ds;
          rest = dropWhile is_digit ds
      in if digs = [] \<or> (1 < length digs \<and> hd digs = CHR ''0'')
            \<or> (rest \<noteq> [] \<and> hd rest \<in> set ''.eE'')
         then None
         else Some ((if neg then - 1 else 1) * int (nat_of_digits digs), rest))"

text \<open>
  Recursive descent; the first argument bounds the number of nested calls and is spent
  one per call.
\<close>

fun parse_value :: "nat \<Rightarrow> string \<Rightarrow> (int jsval \<times> string) option"
  and parse_elements :: "nat \<Rightarrow> string \<Rightarrow> (int jsval list \<times> string) option"
  and parse_members :: "nat \<Rightarrow> string \<Rightarrow> ((string \<times> int jsval) list \<times> string) option" where
  "parse_value 0 cs = None"
| "parse_value (Suc n) cs =
     (case skip_ws cs of
        [] \<Rightarrow> None
      | c # r \<Rightarrow>
          if c = CHR ''{'' then
            (case expect CHR ''}'' r of
               Some r' \<Rightarrow> Some (JObj [], r')
             | None \<Rightarrow>
                 (case parse_members n r of
                    None \<Rightarrow> None
                  | Some (m, r') \<Rightarrow> Some (JObj (fromEntries m), r')))
          else if c = CHR ''['' then
            (case expect CHR '']'' r of
               Some r' \<Rightarrow> Some (JArr [], r')
             | None \<Rightarrow>
                 (case parse_elements n r of
                    None \<Rightarrow> None
                  | Some (vs, r') \<Rightarrow> Some (JArr vs, r')))
          else if c = CHR 0x22 then
            (case parse_string r of
               None \<Rightarrow> None
             | Some (s, r') \<Rightarrow> Some (JStr s, r'))
          else if take 4 (c # r) = ''true'' then Some (JBool True, drop 4 (c # r))
          else if take 5 (c # r) = ''false'' then Some (JBool False, drop 5 (c # r))
          else if take 4 (c # r) = ''null'' then Some (JNull, drop 4 (c # r))
          else (case parse_number (c # r) of
                  None \<Rightarrow> None
                | Some (i, r') \<Rightarrow> Some (JNum i, r')))"
| "parse_elements 0 cs = None"
| "parse_elements (Suc n) cs =
     (case parse_value n cs of
        None \<Rightarrow> None
      | Some (v, r) \<Rightarrow>
          (case expect CHR '','' r of
             Some r' \<Rightarrow>
               (case parse_elements n r' of
                  None \<Rightarrow> None
                | Some (vs, r'') \<Rightarrow> Some (v # vs, r''))
           | None \<Rightarrow>
               (case expect CHR '']'' r of
                  None \<Rightarrow> None
                | Some r' \<Rightarrow> Some ([v], r'))))"
| "parse_members 0 cs = None"
| "parse_members (Suc n) cs =
     (case expect CHR 0x22 cs of
        None \<Rightarrow> None
      | Some r \<Rightarrow>
          (case parse_string r of
             None \<Rightarrow> None
           | Some (k, r1) \<Rightarrow>
               (case expect CHR '':'' r1 of
                  None \<Rightarrow> None
                | Some r2 \<Rightarrow>
                    (case parse_value n r2 of
                       None \<Rightarrow> None
                     | Some (v, r3) \<Rightarrow>
                         (case expect CHR '','' r3 of
                            Some r4 \<Rightarrow>
                              (case parse_members n r4 of
                                 None \<Rightarrow> None
                               | Some (m, r5) \<Rightarrow> Some ((k, v) # m, r5))
                          | None \<Rightarrow>
                              (case expect CHR ''}'' r3 of
                                 None \<Rightarrow> None
                               | Some r4 \<Rightarrow> Some ([(k, v)], r4)))))))"

definition JSON_parse_string :: "string \<Rightarrow> int jsval option" where
  "JSON_parse_string s =
     (case parse_value (2 * length s + 2) s of
        None \<Rightarrow> None
      | Some (v, r) \<Rightarrow> if skip_ws r = [] then Some v else None)"

definition int_builtins :: "int builtins" where
  "int_builtins =
     \<lparr> JSON_parse = (\<lambda>v. JSON_parse_string (ToString_int v)),
       ToNumber = ToNumber_int,
       gt_zero = gt_zero_int,
       error_code = (\<lambda>n. if 400 \<le> n \<and> n < 600 then Some (nat n) else None) \<rparr>"

section \<open>A sample collection\<close>

text \<open>The Context as the server creates it (lines 76 to 88).\<close>

definition ctx0 :: "int Context" where
  "ctx0 =
     \<lparr> currentHook = BeforeOperation,
       customVars = [],
       sessionData = JArr [],
       bools = [(''isLocalhost'', False)] \<rparr>"

text \<open>A \<open>beforeOperation\<close> hook that denies every request: \<open>() => false\<close>.\<close>

definition deny :: "int Hook" where
  "deny a = Inr (JBool False, a)"

text \<open>A hook that does nothing: \<open>() => {}\<close>.\<close>

definition noop :: "int Hook" where
  "noop a = Inr (JUndefined, a)"

text \<open>
  A plugin that returns a changed copy of the Context and leaves the shared one as it is:
  \<open>ctx => ({ ...ctx, customVars: { flag: true } })\<close>.
\<close>

definition flagging :: "int DatabasePlugin" where
  "flagging =
     \<lparr> active = True, title = ''flagging'', author = ''a'', version = ''1.0.0'',
       fn = (\<lambda>c. Inr (c\<lparr>customVars := [(''flag'', JBool True)]\<rparr>, c)) \<rparr>"

text \<open>A plugin that sets the flag on the shared Context and returns it.\<close>

definition marking :: "int DatabasePlugin" where
  "marking =
     \<lparr> active = True, title = ''marking'', author = ''a'', version = ''1.0.0'',
       fn = (\<lambda>c. Inr (c\<lparr>customVars := [(''flag'', JBool True)]\<rparr>,
                      c\<lparr>customVars := [(''flag'', JBool True)]\<rparr>)) \<rparr>"

definition rows :: "int jsval" where
  "rows = JArr [JObj [(''id'', JNum 1), (''title'', JStr ''A'')]]"

text \<open>
  A persistence handle: \<open>findMany\<close> returns one row, \<open>create\<close> and \<open>update\<close> return the record
  they were given, the batch calls return a count, \<open>delete\<close> returns the deleted record.
\<close>

definition db :: "int dbcall \<Rightarrow> int thrown + int jsval" where
  "db c =
     (case c of
        q_findMany q \<Rightarrow> Inr rows
      | q_create d sel \<Rightarrow> Inr d
      | q_createMany d skip \<Rightarrow> Inr (JObj [(''count'', JNum 2)])
      | q_update d w \<Rightarrow> Inr d
      | q_updateMany d w \<Rightarrow> Inr (JObj [(''count'', JNum 2)])
      | q_delete w \<Rightarrow> Inr (JObj [(''id'', JNum 1), (''title'', JStr ''A'')])
      | q_deleteMany w \<Rightarrow> Inr (JObj [(''count'', JNum 2)]))"

definition on_write :: Webhook where
  "on_write =
     \<lparr> name = ''on_write'', api = ''https://example.org/a'',
       onOperation = [Create, Update, Delete], headers = [] \<rparr>"

definition on_read :: Webhook where
  "on_read =
     \<lparr> name = ''on_read'', api = ''https://example.org/b'',
       onOperation = [Read], headers = [] \<rparr>"

definition no_hooks :: "int CRUDHooks" where
  "no_hooks = \<lparr> beforeOperation = [], validateInput = [], modifyInput = [], afterOperation = [] \<rparr>"

text \<open>The collection \<open>posts\<close> with the given plugins and hooks.\<close>

definition posts :: "int DatabasePlugin list \<Rightarrow> int CRUDHooks \<Rightarrow> int route" where
  "posts plugins hs =
     \<lparr> cKey = ''posts'',
       hooks = hs,
       webhooks = [on_write],
       globalWebhooks = [on_read],
       activePlugins = plugins,
       models_cKey = JObj [(''title'', JUndefined), (''length'', JUndefined)],
       query = db \<rparr>"

text \<open>A request to \<open>/posts\<close>.\<close>

definition request :: "Method \<Rightarrow> (string \<times> int jsval) list \<Rightarrow> int jsval \<Rightarrow> int request" where
  "request m q b = \<lparr> req_method = m, req_query = q, req_body = b \<rparr>"

text \<open>
  A \<open>modifyInput\<close> hook that changes the input in place and returns it:
  \<open>({ inputData }) => { inputData.data = { title: "C" }; return inputData; }\<close>.  The
  assignment raises when the request has no body object.
\<close>

definition entitle :: "int Hook" where
  "entitle a =
     (case request_body a of
        JObj m \<Rightarrow>
          Inr (JObj (AList.update ''data'' (JObj [(''title'', JStr ''C'')]) m),
               a\<lparr>request_body := JObj (AList.update ''data'' (JObj [(''title'', JStr ''C'')]) m)\<rparr>)
      | _ \<Rightarrow> Inl (TypeError ''Cannot set properties of undefined (setting data)''))"

text \<open>
  A \<open>modifyInput\<close> hook that returns a replacement and leaves its argument alone:
  \<open>() => ({ data: { title: "B" } })\<close>.
\<close>

definition retitle :: "int Hook" where
  "retitle a = Inr (JObj [(''data'', JObj [(''title'', JStr ''B'')])], a)"

text \<open>The collection \<open>posts\<close> when every persistence call fails on a unique constraint.\<close>

definition posts_failing :: "int route" where
  "posts_failing =
     (posts [] no_hooks)
       \<lparr>query := (\<lambda>c. Inl (PrismaError ''PrismaClientKnownRequestError''
                              ''Unique constraint failed on the fields: (title)''))\<rparr>"

section \<open>Reading a trace\<close>

text \<open>
  The events of one hook phase: the calls of plugins of the given list and the calls of
  hooks, both in that phase.
\<close>

fun phase_event :: "'n DatabasePlugin list \<Rightarrow> hook_phase \<Rightarrow> 'n event \<Rightarrow> bool" where
  "phase_event ps ph (PluginCall t p c) = (p = ph \<and> t \<in> set (map title ps))"
| "phase_event ps ph (HookCall p i a) = (p = ph)"
| "phase_event ps ph _ = False"

text \<open>The calls of plugins and hooks.\<close>

fun hook_event :: "'n event \<Rightarrow> bool" where
  "hook_event (PluginCall t p c) = True"
| "hook_event (HookCall p i a) = True"
| "hook_event _ = False"

text \<open>The persistence calls, the webhook deliveries and the responses of a trace, in order.\<close>

fun db_calls :: "'n event list \<Rightarrow> 'n dbcall list" where
  "db_calls [] = []"
| "db_calls (DbCall c # es) = c # db_calls es"
| "db_calls (_ # es) = db_calls es"

fun triggers :: "'n event list \<Rightarrow> (string \<times> 'n EventTriggerPayload) list" where
  "triggers [] = []"
| "triggers (WebhookTrigger w p # es) = (w, p) # triggers es"
| "triggers (_ # es) = triggers es"

fun responses :: "'n event list \<Rightarrow> (nat \<times> 'n jsval) list" where
  "responses [] = []"
| "responses (Respond st b # es) = (st, b) # responses es"
| "responses (_ # es) = responses es"

text \<open>
  A step only appends events, all of a given kind, to the trace; a step leaves \<open>resultData\<close>
  as it is.
\<close>

definition emits :: "('n event \<Rightarrow> bool) \<Rightarrow> 'n step \<Rightarrow> bool" where
  "emits P f \<longleftrightarrow> (\<forall>s r s'. f s = (r, s') \<longrightarrow> (\<exists>es. trace s' = trace s @ es \<and> list_all P es))"

definition keeps_result :: "'n step \<Rightarrow> bool" where
  "keeps_result f \<longleftrightarrow> (\<forall>s r s'. f s = (r, s') \<longrightarrow> resultData s' = resultData s)"

text \<open>The events that can come before the response: calls of plugins, hooks and persistence.\<close>

fun quiet_event :: "'n event \<Rightarrow> bool" where
  "quiet_event (Respond st b) = False"
| "quiet_event (WebhookTrigger w p) = False"
| "quiet_event _ = True"

text \<open>Every event but a persistence call.\<close>

fun no_db :: "'n event \<Rightarrow> bool" where
  "no_db (DbCall c) = False"
| "no_db _ = True"

text \<open>Every event is fine but the call of a plugin whose title is not among the given plugins.\<close>

fun from_plugins :: "'n DatabasePlugin list \<Rightarrow> 'n event \<Rightarrow> bool" where
  "from_plugins ps (PluginCall t p c) = (t \<in> set (map title ps))"
| "from_plugins ps _ = True"

text \<open>No webhook is triggered before a response has been written.\<close>

fun responded_first :: "'n event list \<Rightarrow> bool" where
  "responded_first [] = True"
| "responded_first (Respond st b # es) = True"
| "responded_first (WebhookTrigger w p # es) = False"
| "responded_first (_ # es) = responded_first es"

text \<open>The handler up to the response (lines 191 to 254), and its three phases before a write.\<close>

definition before_response :: "'n builtins \<Rightarrow> 'n route \<Rightarrow> 'n request \<Rightarrow> 'n step" where
  "before_response B R req =
     and_then (run_phase BeforeOperation (activePlugins R) (beforeOperation (hooks R)))
       (and_then (persist B R req)
          (run_phase AfterOperation (activePlugins R) (afterOperation (hooks R))))"

definition input_phases :: "'n route \<Rightarrow> 'n step" where
  "input_phases R =
     and_then (run_phase BeforeOperation (activePlugins R) (beforeOperation (hooks R)))
       (and_then (run_phase ValidateInput (activePlugins R) (validateInput (hooks R)))
          (run_phase ModifyInput (activePlugins R) (modifyInput (hooks R))))"

text \<open>
  The deliveries of the fan-out: one per webhook of the merged list whose \<open>onOperation\<close>
  holds the operation of the request, in the order of the list, all with the same payload.
\<close>

definition fan_out :: "'n route \<Rightarrow> Method \<Rightarrow> string \<Rightarrow> 'n jsval \<Rightarrow> bool \<Rightarrow> 'n event list" where
  "fan_out R reqMethod now result nonempty =
     map (\<lambda>obj. WebhookTrigger (name obj) (webhookTriggerPayload R reqMethod now result nonempty))
       (filter (\<lambda>obj. fires_on obj (flippedCrudMapping reqMethod)) (mergedWebhooks R))"

text \<open>The record \<open>m\<close> has an own property \<open>length\<close> that is greater than 0.\<close>

definition positive_length :: "'n builtins \<Rightarrow> (string \<times> 'n jsval) list \<Rightarrow> bool" where
  "positive_length B m = (case map_of m ''length'' of Some l \<Rightarrow> gt_zero B l | None \<Rightarrow> False)"

subsection \<open>What a phase does, told from the effects of its plugins and hooks\<close>

text \<open>
  The shared Context after a plugin function has run on it, and the objects of the request
  after a hook has run on them: what the function left in place, whatever it returned (and
  unchanged if it raised).
\<close>

definition after_plugin :: "'n DatabasePlugin \<Rightarrow> 'n Context \<Rightarrow> 'n Context" where
  "after_plugin obj c = (case fn obj c of Inl e \<Rightarrow> c | Inr (returned, c') \<Rightarrow> c')"

definition after_hook :: "'n Hook \<Rightarrow> 'n objects \<Rightarrow> 'n objects" where
  "after_hook op a = (case op a of Inl e \<Rightarrow> a | Inr (returned, a') \<Rightarrow> left_by a a')"

text \<open>
  One call per plugin, in the order of the list, each on the Context that the plugins
  before it left; then one call per hook, in the order of the list, each on the objects
  that the plugins and the hooks before it left.
\<close>

fun plugin_events :: "hook_phase \<Rightarrow> 'n DatabasePlugin list \<Rightarrow> 'n Context \<Rightarrow> 'n event list" where
  "plugin_events ph [] c = []"
| "plugin_events ph (obj # rest) c = PluginCall (title obj) ph c # plugin_events ph rest (after_plugin obj c)"

fun hook_events :: "hook_phase \<Rightarrow> nat \<Rightarrow> 'n Hook list \<Rightarrow> 'n objects \<Rightarrow> 'n event list" where
  "hook_events ph i [] a = []"
| "hook_events ph i (op # rest) a = HookCall ph i (seen a) # hook_events ph (Suc i) rest (after_hook op a)"

definition args_after_plugins :: "hook_phase \<Rightarrow> 'n DatabasePlugin list \<Rightarrow> 'n objects \<Rightarrow> 'n objects" where
  "args_after_plugins ph ps a =
     a\<lparr>shared_ctx := foldl (\<lambda>c obj. after_plugin obj c) ((shared_ctx a)\<lparr>currentHook := ph\<rparr>) ps\<rparr>"

definition args_after_phase ::
    "hook_phase \<Rightarrow> 'n DatabasePlugin list \<Rightarrow> 'n Hook list \<Rightarrow> 'n objects \<Rightarrow> 'n objects" where
  "args_after_phase ph ps hs a = foldl (\<lambda>b op. after_hook op b) (args_after_plugins ph ps a) hs"

definition phase_events ::
    "hook_phase \<Rightarrow> 'n DatabasePlugin list \<Rightarrow> 'n Hook list \<Rightarrow> 'n objects \<Rightarrow> 'n event list" where
  "phase_events ph ps hs a =
     plugin_events ph ps ((shared_ctx a)\<lparr>currentHook := ph\<rparr>)
       @ hook_events ph 0 hs (args_after_plugins ph ps a)"

text \<open>The plugin \<open>obj\<close> with \<open>g\<close> applied to what its function returns, its effect unchanged.\<close>

definition returning :: "('n Context \<Rightarrow> 'n Context) \<Rightarrow> 'n DatabasePlugin \<Rightarrow> 'n DatabasePlugin" where
  "returning g obj =
     obj\<lparr>fn := (\<lambda>c. case fn obj c of Inl e \<Rightarrow> Inl e | Inr (returned, c') \<Rightarrow> Inr (g returned, c'))\<rparr>"

text \<open>The hooks that the collection declares for a phase.\<close>

fun hooks_in :: "hook_phase \<Rightarrow> 'n CRUDHooks \<Rightarrow> 'n Hook list" where
  "hooks_in BeforeOperation hs = beforeOperation hs"
| "hooks_in ValidateInput hs = validateInput hs"
| "hooks_in ModifyInput hs = modifyInput hs"
| "hooks_in AfterOperation hs = afterOperation hs"

text \<open>The phases of a request: a read has no \<open>validateInput\<close> and no \<open>modifyInput\<close> phase.\<close>

fun runs_phase :: "Method \<Rightarrow> hook_phase \<Rightarrow> bool" where
  "runs_phase GET ValidateInput = False"
| "runs_phase GET ModifyInput = False"
| "runs_phase m ph = True"

text \<open>
  The objects of a request when a phase begins: those of the start of the request, as the
  phases before it left them.
\<close>

definition objects_before :: "'n route \<Rightarrow> 'n Context \<Rightarrow> 'n request \<Rightarrow> hook_phase \<Rightarrow> 'n objects" where
  "objects_before R c req ph =
     (let a0 = objs (start c req);
          a1 = args_after_phase BeforeOperation (activePlugins R) (beforeOperation (hooks R)) a0;
          a2 = args_after_phase ValidateInput (activePlugins R) (validateInput (hooks R)) a1;
          a3 = args_after_phase ModifyInput (activePlugins R) (modifyInput (hooks R)) a2
      in case ph of
           BeforeOperation \<Rightarrow> a0
         | ValidateInput \<Rightarrow> a1
         | ModifyInput \<Rightarrow> a2
         | AfterOperation \<Rightarrow> if req_method req = GET then a1 else a3)"

text \<open>The calls of plugins and hooks of one phase in a trace, in order.\<close>

fun in_phase :: "hook_phase \<Rightarrow> 'n event \<Rightarrow> bool" where
  "in_phase ph (PluginCall t p c) = (p = ph)"
| "in_phase ph (HookCall p i a) = (p = ph)"
| "in_phase ph _ = False"

definition calls_in :: "hook_phase \<Rightarrow> 'n event list \<Rightarrow> 'n event list" where
  "calls_in ph es = filter (in_phase ph) es"

subsection \<open>Hooks that return their input\<close>

text \<open>
  Each hook of a list, the hooks run in order from the objects \<open>a\<close>, returns the input of
  the request, the object \<open>req.body\<close>, as it leaves it.
\<close>

fun return_their_input :: "'n Hook list \<Rightarrow> 'n objects \<Rightarrow> bool" where
  "return_their_input [] a = True"
| "return_their_input (op # rest) a =
     (case op a of
        Inl e \<Rightarrow> True
      | Inr (returned, a') \<Rightarrow>
          returned = request_body (left_by a a') \<and> return_their_input rest (left_by a a'))"

text \<open>
  What the last hook of a list has returned when the hooks have run in order from the
  objects \<open>a\<close>; \<open>v\<close> if there is no hook.
\<close>

fun last_returned :: "'n jsval \<Rightarrow> 'n Hook list \<Rightarrow> 'n objects \<Rightarrow> 'n jsval" where
  "last_returned v [] a = v"
| "last_returned v (op # rest) a =
     (case op a of
        Inl e \<Rightarrow> v
      | Inr (returned, a') \<Rightarrow> last_returned returned rest (left_by a a'))"

text \<open>
  The final \<open>inputData\<close> of a request: what the last \<open>modifyInput\<close> hook has returned, and
  the input of the request as the hooks of that phase would find it if the collection
  declares none.
\<close>

definition final_input :: "'n route \<Rightarrow> 'n Context \<Rightarrow> 'n request \<Rightarrow> 'n jsval" where
  "final_input R c req =
     (let a = args_after_plugins ModifyInput (activePlugins R) (objects_before R c req ModifyInput)
      in last_returned (request_body a) (modifyInput (hooks R)) a)"

section \<open>Sequencing and traces\<close>

lemma trace_emit [simp]: "trace (emit e s) = trace s @ [e]"
  and objs_emit [simp]: "objs (emit e s) = objs s"
  and resultData_emit [simp]: "resultData (emit e s) = resultData s"
  by (simp_all add: emit_def)

lemma and_then_cases:
  assumes "and_then a b s = (r, s')"
  obtains e where "a s = (Some e, s')" "r = Some e"
        | s1 where "a s = (None, s1)" "b s1 = (r, s')"
  using assms by (auto simp: and_then_def split: prod.splits option.splits)

lemma and_then_assoc: "and_then (and_then a b) c = and_then a (and_then b c)"
  by (rule ext) (simp add: and_then_def split: prod.splits option.splits)

lemma emitsI: "(\<And>s r s'. f s = (r, s') \<Longrightarrow> \<exists>es. trace s' = trace s @ es \<and> list_all P es) \<Longrightarrow> emits P f"
  by (simp add: emits_def)

lemma emitsD: "emits P f \<Longrightarrow> f s = (r, s') \<Longrightarrow> \<exists>es. trace s' = trace s @ es \<and> list_all P es"
  by (simp add: emits_def)

lemma emits_mono: "emits P f \<Longrightarrow> (\<And>e. P e \<Longrightarrow> Q e) \<Longrightarrow> emits Q f"
  unfolding emits_def list_all_iff by blast

lemma emits_and_then: 
  assumes "emits P a" "emits P b" shows "emits P (and_then a b)"
proof (rule emitsI)
  fix s r s' assume "and_then a b s = (r, s')"
  then show "\<exists>es. trace s' = trace s @ es \<and> list_all P es"
  proof (cases rule: and_then_cases)
    case (1 e)
    then show ?thesis using emitsD [OF assms(1)] by blast
  next
    case (2 s1)
    from emitsD [OF assms(1) 2(1)] obtain es1 where "trace s1 = trace s @ es1" "list_all P es1" by blast
    moreover from emitsD [OF assms(2) 2(2)] obtain es2 where "trace s' = trace s1 @ es2" "list_all P es2" by blast
    ultimately have "trace s' = trace s @ (es1 @ es2) \<and> list_all P (es1 @ es2)" by simp
    then show ?thesis by blast
  qed
qed

lemma emits_run_plugins_aux:
  "run_plugins ph qs s = (r, s') \<Longrightarrow> set qs \<subseteq> set ps \<Longrightarrow> \<exists>es. trace s' = trace s @ es \<and> list_all (phase_event ps ph) es"
proof (induction qs arbitrary: s)
  case Nil
  then show ?case by simp
next
  case (Cons obj rest)
  show ?case
  proof (cases "fn obj (shared_ctx (objs s))")
    case (Inl e)
    with Cons.prems show ?thesis by auto
  next
    case (Inr p)
    obtain returned c where p: "p = (returned, c)" by (cases p)
    let ?s1 = "(emit (PluginCall (title obj) ph (shared_ctx (objs s))) s)\<lparr>objs := (objs s)\<lparr>shared_ctx := c\<rparr>\<rparr>"
    from Cons.prems Inr p have "run_plugins ph rest ?s1 = (r, s')" by simp
    from Cons.IH [OF this] Cons.prems(2) obtain es where "trace s' = trace ?s1 @ es" "list_all (phase_event ps ph) es" by auto
    moreover have "trace ?s1 = trace s @ [PluginCall (title obj) ph (shared_ctx (objs s))]" by simp
    ultimately have "trace s' = trace s @ (PluginCall (title obj) ph (shared_ctx (objs s)) # es) \<and> list_all (phase_event ps ph) (PluginCall (title obj) ph (shared_ctx (objs s)) # es)"
      using Cons.prems(2) by simp
    then show ?thesis by blast
  qed
qed

lemma emits_run_plugins: "emits (phase_event ps ph) (run_plugins ph ps)"
  by (rule emitsI) (rule emits_run_plugins_aux, auto)

lemma emits_run_hooks: "emits (phase_event ps ph) (run_hooks ph i hs)"
proof (rule emitsI)
  fix s :: "'a pstate" and r s'
  assume "run_hooks ph i hs s = (r, s')"
  then show "\<exists>es. trace s' = trace s @ es \<and> list_all (phase_event ps ph) es"
  proof (induction hs arbitrary: s i)
    case Nil
    then show ?case by simp
  next
    case (Cons op rest)
    show ?case
    proof (cases "op (objs s)")
      case (Inl e)
      with Cons.prems show ?thesis by auto
    next
      case (Inr p)
      obtain returned a where p: "p = (returned, a)" by (cases p)
      let ?s1 = "(emit (HookCall ph i (seen (objs s))) s)\<lparr>objs := left_by (objs s) a\<rparr>"
      from Cons.prems Inr p have "run_hooks ph (Suc i) rest ?s1 = (r, s')" by simp
      from Cons.IH [OF this] obtain es where "trace s' = trace ?s1 @ es" "list_all (phase_event ps ph) es" by auto
      then have "trace s' = trace s @ (HookCall ph i (seen (objs s)) # es) \<and> list_all (phase_event ps ph) (HookCall ph i (seen (objs s)) # es)"
        by simp
      then show ?thesis by blast
    qed
  qed
qed

lemma emits_set_currentHook: "emits P (set_currentHook ph)"
  by (rule emitsI) (auto simp: set_currentHook_def)

lemma emits_run_phase: "emits (phase_event ps ph) (run_phase ph ps hs)"
  unfolding run_phase_def
  by (intro emits_and_then emits_set_currentHook emits_run_plugins emits_run_hooks)

section \<open>The query normalizer\<close>

lemma dropWhile_keeps: "x \<in> set xs \<Longrightarrow> \<not> P x \<Longrightarrow> x \<in> set (dropWhile P xs)"
  by (induction xs) auto

lemma trim_keeps: "x \<in> set s \<Longrightarrow> \<not> is_ws x \<Longrightarrow> x \<in> set (trim s)"
  by (simp add: trim_def dropWhile_keeps)

lemma dec_literal_comma: 
  assumes "CHR '','' \<in> set s" shows "dec_literal s = None"
proof -
  have nws: "\<not> is_ws CHR '',''" by (simp add: is_ws_def)
  have nd: "\<not> is_digit CHR '',''" by (simp add: is_digit_def)
  from trim_keeps [OF assms nws] have mem: "CHR '','' \<in> set (trim s)" .
  then obtain c ds where t: "trim s = c # ds" by (cases "trim s") auto
  from mem t nd have "\<not> list_all is_digit (c # ds)" by (auto simp: list_all_iff)
  moreover from mem t nd have "(c = CHR ''-'' \<or> c = CHR ''+'') \<Longrightarrow> \<not> list_all is_digit ds"
    by (auto simp: list_all_iff)
  ultimately show ?thesis using t by (auto simp: dec_literal_def)
qed

lemma join_comma_has_comma: "2 \<le> length ss \<Longrightarrow> CHR '','' \<in> set (join_comma ss)"
  by (cases ss rule: join_comma.cases) auto

lemma elem_strings_strs: "elem_strings (map JStr ss) = ss"
  by (induction ss) auto

lemma not_shadows_strs: "\<not> list_ex shadows (map JStr ss)"
  by (induction ss) auto

lemma conforms_int_builtins: "conforms int_builtins"
proof -
  have 1: "\<not> isl (ToNumber_int (JStr s))" for s by (simp add: ToNumber_int_def)
  have 2: "ToNumber_int (JArr (map JStr ss)) = Inr None" if "2 \<le> length ss" for ss
    using that by (simp add: ToNumber_int_def not_shadows_strs elem_strings_strs dec_literal_comma join_comma_has_comma)
  have "dec_literal ''[object Object]'' = None" by code_simp
  then have 3: "ToNumber_int (JObj m) = Inr None" if "''toString'' \<notin> fst ` set m" for m
    using that by (simp add: ToNumber_int_def)
  have "JSON_parse_string ''[object Object]'' = None" by code_simp
  then have 4: "JSON_parse int_builtins (JObj m) = None" for m
    by (simp add: int_builtins_def)
  from 1 2 3 4 show ?thesis by (simp add: conforms_def int_builtins_def)
qed

lemma mapEntry_where_rejected: "JSON_parse B v = None \<Longrightarrow> mapEntry B ''where'' v = Inl malformed"
  by (simp add: mapEntry_def restructure_def)

lemma mapEntries_malformed:
  "(''where'', v) \<in> set q \<Longrightarrow> JSON_parse B v = None \<Longrightarrow> only_where_raises B q
     \<Longrightarrow> mapEntries B q = Inl malformed"
proof (induction q)
  case Nil then show ?case by simp
next
  case (Cons e q)
  obtain k w where e: "e = (k, w)" by (cases e)
  show ?case
  proof (cases "k = ''where'' \<and> JSON_parse B w = None")
    case True
    then show ?thesis by (simp add: e mapEntry_where_rejected)
  next
    case False
    with Cons.prems(3) e have ok: "\<not> isl (mapEntry B k w)" and rest: "only_where_raises B q"
      by (auto simp: only_where_raises_def)
    from False Cons.prems(1,2) e have "(''where'', v) \<in> set q" by auto
    from Cons.IH [OF this Cons.prems(2) rest] ok show ?thesis
      by (cases "mapEntry B k w") (simp_all add: e)
  qed
qed

lemma mapQuery_malformed:
  "(''where'', v) \<in> set q \<Longrightarrow> JSON_parse B v = None \<Longrightarrow> only_where_raises B q
     \<Longrightarrow> mapQuery B q = Inl malformed"
  by (simp add: mapQuery_def mapEntries_malformed)

section \<open>The handler\<close>

lemma start_trace [simp]: "trace (start c req) = []"
  by (simp add: start_def)

lemma keeps_resultI: "(\<And>s r s'. f s = (r, s') \<Longrightarrow> resultData s' = resultData s) \<Longrightarrow> keeps_result f"
  by (simp add: keeps_result_def)

lemma keeps_resultD: "keeps_result f \<Longrightarrow> f s = (r, s') \<Longrightarrow> resultData s' = resultData s"
  by (simp add: keeps_result_def)

lemma keeps_result_and_then: "keeps_result a \<Longrightarrow> keeps_result b \<Longrightarrow> keeps_result (and_then a b)"
  by (rule keeps_resultI) (erule and_then_cases; simp add: keeps_result_def; metis)

lemma keeps_result_run_plugins: "keeps_result (run_plugins ph ps)"
proof (rule keeps_resultI)
  fix s :: "'a pstate" and r s'
  show "run_plugins ph ps s = (r, s') \<Longrightarrow> resultData s' = resultData s"
    by (induction ps arbitrary: s) (auto split: sum.splits)
qed

lemma keeps_result_run_hooks: "keeps_result (run_hooks ph i hs)"
proof (rule keeps_resultI)
  fix s :: "'a pstate" and r s'
  show "run_hooks ph i hs s = (r, s') \<Longrightarrow> resultData s' = resultData s"
    by (induction hs arbitrary: s i) (auto split: sum.splits)
qed

lemma keeps_result_set_currentHook: "keeps_result (set_currentHook ph)"
  by (rule keeps_resultI) (auto simp: set_currentHook_def)

lemma keeps_result_run_phase: "keeps_result (run_phase ph ps hs)"
  unfolding run_phase_def
  by (intro keeps_result_and_then keeps_result_set_currentHook keeps_result_run_plugins keeps_result_run_hooks)

lemma phase_event_quiet: "phase_event ps ph e \<Longrightarrow> quiet_event e"
  by (cases e) auto

lemma phase_event_hook: "phase_event ps ph e \<Longrightarrow> hook_event e"
  by (cases e) auto

lemma phase_event_no_db: "phase_event ps ph e \<Longrightarrow> no_db e"
  by (cases e) auto

lemma emits_call: "emits quiet_event (call R c)"
  by (rule emitsI) (auto simp: call_def split: sum.splits)

lemma emits_write_data: "emits quiet_event (write_data R m)"
proof (rule emitsI)
  fix s :: "'a pstate" and r s'
  assume w: "write_data R m s = (r, s')"
  show "\<exists>es. trace s' = trace s @ es \<and> list_all quiet_event es"
  proof (cases "nullish (request_body (objs s)) \<or> m \<notin> {POST, PUT, DELETE}")
    case True
    with w have "s' = s" by (auto simp: write_data_def Let_def nullish_def split: if_splits)
    then show ?thesis by simp
  next
    case False
    with w obtain c where "call R c s = (r, s')"
      by (auto simp: write_data_def Let_def nullish_def split: if_splits)
    from emitsD [OF emits_call this] show ?thesis .
  qed
qed

lemma emits_persist: "emits quiet_event (persist B R req)"
proof (cases "req_method req = GET")
  case True
  show ?thesis
  proof (rule emitsI)
    fix s :: "'a pstate" and r s'
    assume p: "persist B R req s = (r, s')"
    show "\<exists>es. trace s' = trace s @ es \<and> list_all quiet_event es"
    proof (cases "mapQuery B (req_query req)")
      case (Inl e)
      with p True have "s' = s" by (simp add: persist_def)
      then show ?thesis by simp
    next
      case (Inr q)
      with p True have "call R (q_findMany q) s = (r, s')" by (simp add: persist_def)
      from emitsD [OF emits_call this] show ?thesis .
    qed
  qed
next
  case False
  have "persist B R req =
     and_then (run_phase ValidateInput (activePlugins R) (validateInput (hooks R)))
          (and_then (run_phase ModifyInput (activePlugins R) (modifyInput (hooks R)))
             (write_data R (req_method req)))"
    using False by (rule_tac ext) (simp add: persist_def)
  then show ?thesis
    by (simp only:) (intro emits_and_then emits_write_data emits_mono [OF emits_run_phase phase_event_quiet])
qed

lemma emits_before_response: "emits quiet_event (before_response B R req)"
  unfolding before_response_def
  by (intro emits_and_then emits_persist emits_mono [OF emits_run_phase phase_event_quiet])

lemma handler_eq: "handler B R now c req = and_then (before_response B R req) (respond B R (req_method req) now) (start c req)"
  by (simp add: handler_def before_response_def and_then_assoc)

lemma trace_fan_out_foldl:
  "trace (foldl (\<lambda>t obj. if P obj then emit (f obj) t else t) s ws) = trace s @ map f (filter P ws)"
  by (induction ws arbitrary: s) auto

lemma resultData_fan_out_foldl:
  "resultData (foldl (\<lambda>t obj. if P obj then emit (f obj) t else t) s ws) = resultData s"
  by (induction ws arbitrary: s) auto

lemma respond_None:
  assumes "respond B R m now s = (None, s')"
  shows "\<exists>nonempty. length_gt_zero B (resultData s) = Inr nonempty
           \<and> trace s' = trace s @ Respond 200 (resultData s) # fan_out R m now (resultData s) nonempty"
    and "resultData s' = resultData s"
  using assms
  by (auto simp: respond_def Let_def fan_out_def trace_fan_out_foldl resultData_fan_out_foldl split: sum.splits)

lemma respond_Some:
  assumes "respond B R m now s = (Some e, s')"
  shows "trace s' = trace s @ [Respond 200 (resultData s)]" and "resultData s' = resultData s"
  using assms
  by (auto simp: respond_def Let_def split: sum.splits)

lemma handler_cases:
  assumes "handler B R now c req = (r, s')"
  obtains (early) e where "r = Some e" "before_response B R req (start c req) = (Some e, s')"
            "list_all quiet_event (trace s')"
        | (late) e s1 where "r = Some e" "before_response B R req (start c req) = (None, s1)"
            "list_all quiet_event (trace s1)" "trace s' = trace s1 @ [Respond 200 (resultData s')]"
            "resultData s' = resultData s1"
        | (completed) s1 nonempty where "r = None" "before_response B R req (start c req) = (None, s1)"
            "list_all quiet_event (trace s1)" "length_gt_zero B (resultData s') = Inr nonempty"
            "trace s' = trace s1 @ Respond 200 (resultData s') # fan_out R (req_method req) now (resultData s') nonempty"
            "resultData s' = resultData s1"
proof -
  from assms have "and_then (before_response B R req) (respond B R (req_method req) now) (start c req) = (r, s')"
    by (simp add: handler_eq)
  then show thesis
  proof (cases rule: and_then_cases)
    case (1 e)
    from emitsD [OF emits_before_response 1(1)] have "list_all quiet_event (trace s')" by auto
    with 1 show ?thesis by (rule_tac early) auto
  next
    case (2 s1)
    from emitsD [OF emits_before_response 2(1)] have q: "list_all quiet_event (trace s1)" by auto
    show ?thesis
    proof (cases r)
      case None
      with 2 have rn: "respond B R (req_method req) now s1 = (None, s')" by simp
      from respond_None [OF rn] obtain nonempty where
        "length_gt_zero B (resultData s') = Inr nonempty"
        "trace s' = trace s1 @ Respond 200 (resultData s') # fan_out R (req_method req) now (resultData s') nonempty"
        "resultData s' = resultData s1" by auto
      with None 2 q show ?thesis by (rule_tac completed) auto
    next
      case (Some e)
      with 2 have rs: "respond B R (req_method req) now s1 = (Some e, s')" by simp
      from respond_Some [OF rs] Some 2 q show ?thesis by (rule_tac late) auto
    qed
  qed
qed

lemma triggers_append: "triggers (xs @ ys) = triggers xs @ triggers ys"
  by (induction xs rule: triggers.induct) auto

lemma db_calls_append: "db_calls (xs @ ys) = db_calls xs @ db_calls ys"
  by (induction xs rule: db_calls.induct) auto

lemma responses_append: "responses (xs @ ys) = responses xs @ responses ys"
  by (induction xs rule: responses.induct) auto

lemma triggers_quiet: "list_all quiet_event es \<Longrightarrow> triggers es = []"
  by (induction es rule: triggers.induct) auto

lemma db_calls_no_db: "list_all no_db es \<Longrightarrow> db_calls es = []"
  by (induction es rule: db_calls.induct) auto

lemma triggers_map: "triggers (map (\<lambda>obj. WebhookTrigger (f obj) (g obj)) ws) = map (\<lambda>obj. (f obj, g obj)) ws"
  by (induction ws) auto

lemma triggers_fan_out:
  "triggers (fan_out R m now result nonempty)
     = map (\<lambda>obj. (name obj, webhookTriggerPayload R m now result nonempty))
         (filter (\<lambda>obj. fires_on obj (flippedCrudMapping m)) (mergedWebhooks R))"
  by (simp add: fan_out_def triggers_map)

lemma responded_first_quiet: "list_all quiet_event pre \<Longrightarrow> responded_first pre"
  by (induction pre rule: responded_first.induct) auto

lemma responded_first_after: "list_all quiet_event pre \<Longrightarrow> responded_first (pre @ Respond st b # rest)"
  by (induction pre rule: responded_first.induct) auto

lemma run_plugins_None:
  "run_plugins ph ps s = (None, s') \<Longrightarrow>
     objs s' = (objs s)\<lparr>shared_ctx := foldl (\<lambda>c obj. after_plugin obj c) (shared_ctx (objs s)) ps\<rparr>
     \<and> trace s' = trace s @ plugin_events ph ps (shared_ctx (objs s))"
proof (induction ps arbitrary: s)
  case Nil then show ?case by simp
next
  case (Cons obj rest)
  from Cons.prems obtain returned c' where f: "fn obj (shared_ctx (objs s)) = Inr (returned, c')"
    by (cases "fn obj (shared_ctx (objs s))") auto
  let ?s1 = "(emit (PluginCall (title obj) ph (shared_ctx (objs s))) s)\<lparr>objs := (objs s)\<lparr>shared_ctx := c'\<rparr>\<rparr>"
  from Cons.prems f have "run_plugins ph rest ?s1 = (None, s')" by simp
  from Cons.IH [OF this] f show ?case by (simp add: after_plugin_def)
qed

lemma run_hooks_None:
  "run_hooks ph i hs s = (None, s') \<Longrightarrow>
     objs s' = foldl (\<lambda>b op. after_hook op b) (objs s) hs
     \<and> trace s' = trace s @ hook_events ph i hs (objs s)"
proof (induction hs arbitrary: s i)
  case Nil then show ?case by simp
next
  case (Cons op rest)
  from Cons.prems obtain returned a' where f: "op (objs s) = Inr (returned, a')"
    by (cases "op (objs s)") auto
  let ?s1 = "(emit (HookCall ph i (seen (objs s))) s)\<lparr>objs := left_by (objs s) a'\<rparr>"
  from Cons.prems f have "run_hooks ph (Suc i) rest ?s1 = (None, s')" by simp
  from Cons.IH [OF this] f show ?case by (simp add: after_hook_def)
qed

lemma run_phase_None:
  assumes "run_phase ph ps hs s = (None, s')"
  shows "objs s' = args_after_phase ph ps hs (objs s)"
    and "trace s' = trace s @ phase_events ph ps hs (objs s)"
proof -
  let ?s0 = "s\<lparr>objs := (objs s)\<lparr>shared_ctx := (shared_ctx (objs s))\<lparr>currentHook := ph\<rparr>\<rparr>\<rparr>"
  from assms obtain s1 where p: "run_plugins ph ps ?s0 = (None, s1)" and h: "run_hooks ph 0 hs s1 = (None, s')"
    by (auto simp: run_phase_def set_currentHook_def and_then_def split: prod.splits option.splits)
  from run_plugins_None [OF p] run_hooks_None [OF h]
  show "objs s' = args_after_phase ph ps hs (objs s)"
    and "trace s' = trace s @ phase_events ph ps hs (objs s)"
    by (simp_all add: args_after_phase_def args_after_plugins_def phase_events_def)
qed

lemma run_plugins_returning: "run_plugins ph (map (returning g) ps) s = run_plugins ph ps s"
  by (induction ps arbitrary: s) (auto simp: returning_def split: sum.splits)

lemma run_phase_returning: "run_phase ph (map (returning g) ps) hs = run_phase ph ps hs"
proof -
  have "run_plugins ph (map (returning g) ps) = run_plugins ph ps"
    by (rule ext) (rule run_plugins_returning)
  then show ?thesis by (simp add: run_phase_def)
qed

lemma phase_event_from_plugins: "phase_event ps ph e \<Longrightarrow> from_plugins ps e"
  by (cases e) auto

lemma from_plugins_other: "\<not> hook_event e \<Longrightarrow> from_plugins ps e"
  by (cases e) auto

lemma handler_from_plugins:
  "list_all (from_plugins (activePlugins R)) (trace (snd (handler B R now c req)))"
proof -
  let ?ps = "activePlugins R"
  have call: "emits (from_plugins ?ps) (call R k)" for k
    by (rule emitsI) (auto simp: call_def split: sum.splits)
  have phase: "emits (from_plugins ?ps) (run_phase ph ?ps hs)" for ph hs
    by (rule emits_mono [OF emits_run_phase phase_event_from_plugins])
  have wr: "emits (from_plugins ?ps) (write_data R m)" for m
  proof (rule emitsI)
    fix s :: "'a pstate" and r s'
    assume w: "write_data R m s = (r, s')"
    show "\<exists>es. trace s' = trace s @ es \<and> list_all (from_plugins ?ps) es"
    proof (cases "nullish (request_body (objs s)) \<or> m \<notin> {POST, PUT, DELETE}")
      case True
      with w have "s' = s" by (auto simp: write_data_def Let_def nullish_def split: if_splits)
      then show ?thesis by simp
    next
      case False
      with w obtain k where "call R k s = (r, s')"
        by (auto simp: write_data_def Let_def nullish_def split: if_splits)
      from emitsD [OF call this] show ?thesis .
    qed
  qed
  have per: "emits (from_plugins ?ps) (persist B R req)"
  proof (rule emitsI)
    fix s :: "'a pstate" and r s'
    assume p: "persist B R req s = (r, s')"
    show "\<exists>es. trace s' = trace s @ es \<and> list_all (from_plugins ?ps) es"
    proof (cases "req_method req = GET")
      case True
      show ?thesis
      proof (cases "mapQuery B (req_query req)")
        case (Inl e)
        with p True have "s' = s" by (simp add: persist_def)
        then show ?thesis by simp
      next
        case (Inr q)
        with p True have "call R (q_findMany q) s = (r, s')" by (simp add: persist_def)
        from emitsD [OF call this] show ?thesis .
      qed
    next
      case False
      with p have "and_then (run_phase ValidateInput ?ps (validateInput (hooks R)))
          (and_then (run_phase ModifyInput ?ps (modifyInput (hooks R)))
             (write_data R (req_method req))) s = (r, s')" by (simp add: persist_def)
      from emitsD [OF emits_and_then [OF phase emits_and_then [OF phase wr]] this] show ?thesis .
    qed
  qed
  have res: "emits (from_plugins ?ps) (respond B R m now)" for m
  proof (rule emitsI)
    fix s :: "'a pstate" and r s'
    assume "respond B R m now s = (r, s')"
    then have "\<exists>es. trace s' = trace s @ es \<and> list_all (\<lambda>e. \<not> hook_event e) es"
      by (cases r) (auto dest!: respond_None(1) respond_Some(1) simp: fan_out_def list_all_iff)
    then show "\<exists>es. trace s' = trace s @ es \<and> list_all (from_plugins ?ps) es"
      by (auto simp: list_all_iff from_plugins_other)
  qed
  have "emits (from_plugins ?ps)
     (and_then (run_phase BeforeOperation ?ps (beforeOperation (hooks R)))
       (and_then (persist B R req)
          (and_then (run_phase AfterOperation ?ps (afterOperation (hooks R)))
             (respond B R (req_method req) now))))"
    by (intro emits_and_then phase per res)
  from emitsD [OF this, of "start c req" "fst (handler B R now c req)" "snd (handler B R now c req)"]
  show ?thesis by (simp add: handler_def)
qed

lemma UNIV_operation: "(UNIV :: operation set) = {Create, Read, Update, Delete}"
  by (auto intro: operation.exhaust)

lemma flippedCrudMapping_bij: "bij_betw flippedCrudMapping {GET, POST, PUT, DELETE} (range Some)"
  by (auto simp: bij_betw_def UNIV_operation)

lemma flippedCrudMapping_other: "m \<notin> {GET, POST, PUT, DELETE} \<Longrightarrow> flippedCrudMapping m = None"
  by (cases m) auto

lemma write_data_other:
  "m \<notin> {POST, PUT, DELETE} \<Longrightarrow> write_data R m s = (r, s') \<Longrightarrow> s' = s"
  by (auto simp: write_data_def Let_def nullish_def split: if_splits)

lemma persist_other:
  assumes "req_method req \<notin> {GET, POST, PUT, DELETE}"
  shows "emits hook_event (persist B R req)" and "keeps_result (persist B R req)"
proof -
  let ?m = "req_method req"
  from assms have nw: "?m \<notin> {POST, PUT, DELETE}" by simp
  have w1: "emits hook_event (write_data R ?m)"
  proof (rule emitsI)
    fix s :: "'a pstate" and r s'
    assume "write_data R ?m s = (r, s')"
    from write_data_other [OF nw this] show "\<exists>es. trace s' = trace s @ es \<and> list_all hook_event es"
      by simp
  qed
  have w2: "keeps_result (write_data R ?m)"
  proof (rule keeps_resultI)
    fix s :: "'a pstate" and r s'
    assume "write_data R ?m s = (r, s')"
    from write_data_other [OF nw this] show "resultData s' = resultData s" by simp
  qed
  have p: "persist B R req =
     and_then (run_phase ValidateInput (activePlugins R) (validateInput (hooks R)))
          (and_then (run_phase ModifyInput (activePlugins R) (modifyInput (hooks R)))
             (write_data R ?m))"
    using assms by (rule_tac ext) (simp add: persist_def)
  show "emits hook_event (persist B R req)"
    unfolding p by (intro emits_and_then w1 emits_mono [OF emits_run_phase phase_event_hook])
  show "keeps_result (persist B R req)"
    unfolding p by (intro keeps_result_and_then w2 keeps_result_run_phase)
qed

lemma before_response_other:
  assumes "req_method req \<notin> {GET, POST, PUT, DELETE}"
  shows "emits hook_event (before_response B R req)" and "keeps_result (before_response B R req)"
proof -
  show "emits hook_event (before_response B R req)"
    unfolding before_response_def
    by (intro emits_and_then persist_other(1) [OF assms] emits_mono [OF emits_run_phase phase_event_hook])
  show "keeps_result (before_response B R req)"
    unfolding before_response_def
    by (intro keeps_result_and_then persist_other(2) [OF assms] keeps_result_run_phase)
qed

lemma foldl_unchanged: "foldl (\<lambda>t obj. t) s ws = s"
  by (induction ws) auto

lemma hook_events_only:
  "list_all hook_event es \<Longrightarrow> db_calls es = [] \<and> triggers es = [] \<and> responses es = [] \<and> filter hook_event es = es"
  by (induction es) (auto elim: hook_event.elims)

lemma start_resultData [simp]: "resultData (start c req) = JArr []"
  by (simp add: start_def)

lemma map_of_rev_distinct: "distinct (map fst l) \<Longrightarrow> map_of (rev l) = map_of l"
proof (induction l)
  case Nil then show ?case by simp
next
  case (Cons x l)
  obtain a b where x: "x = (a, b)" by (cases x)
  from Cons.prems x have a: "map_of l a = None" by (simp add: map_of_eq_None_iff)
  from Cons x have IH: "map_of (rev l) = map_of l" by simp
  show ?case
    by (rule ext) (simp add: x IH a map_add_def split: option.splits)
qed

lemma map_of_foldl_update:
  "map_of (foldl (\<lambda>m (k, v). AList.update k v m) acc es) = map_of acc ++ map_of (rev es)"
proof (induction es rule: rev_induct)
  case Nil then show ?case by simp
next
  case (snoc e es)
  obtain k v where e: "e = (k, v)" by (cases e)
  show ?case by (rule ext) (simp add: e snoc update_conv map_add_def)
qed

lemma merge_lookup:
  assumes "distinct (map fst dflt)" and "distinct (map fst x)"
  shows "get_prop (merge (JObj dflt) (JObj x)) k
           = (case map_of x k of Some v \<Rightarrow> v | None \<Rightarrow> get_prop (JObj dflt) k)"
  using assms
  by (simp add: get_prop_def merge_def assign_def own_props_def map_of_foldl_update
        map_of_rev_distinct map_add_def split: option.splits)

lemma emits_no_db_tail:
  "emits no_db (and_then (run_phase AfterOperation ps hs) (respond B R m now))"
proof -
  have "emits no_db (respond B R m now)"
  proof (rule emitsI)
    fix s :: "'a pstate" and r s'
    assume "respond B R m now s = (r, s')"
    then show "\<exists>es. trace s' = trace s @ es \<and> list_all no_db es"
      by (cases r) (auto dest!: respond_None(1) respond_Some(1) simp: fan_out_def list_all_iff)
  qed
  then show ?thesis
    by (intro emits_and_then emits_mono [OF emits_run_phase phase_event_no_db])
qed

lemma emits_input_phases: "emits hook_event (input_phases R)"
  unfolding input_phases_def
  by (intro emits_and_then emits_mono [OF emits_run_phase phase_event_hook])

lemma input_phases_args:
  assumes "input_phases R (start c req) = (None, s3)"
  shows "objs s3
           = args_after_phase ModifyInput (activePlugins R) (modifyInput (hooks R))
               (args_after_phase ValidateInput (activePlugins R) (validateInput (hooks R))
                  (args_after_phase BeforeOperation (activePlugins R) (beforeOperation (hooks R))
                     (objs (start c req))))"
proof -
  from assms obtain s1 s2 where
    1: "run_phase BeforeOperation (activePlugins R) (beforeOperation (hooks R)) (start c req) = (None, s1)" and
    2: "run_phase ValidateInput (activePlugins R) (validateInput (hooks R)) s1 = (None, s2)" and
    3: "run_phase ModifyInput (activePlugins R) (modifyInput (hooks R)) s2 = (None, s3)"
    unfolding input_phases_def by (auto elim!: and_then_cases)
  from run_phase_None(1) [OF 1] run_phase_None(1) [OF 2] run_phase_None(1) [OF 3]
  show ?thesis by simp
qed

lemma handler_after_input:
  assumes ok: "input_phases R (start c req) = (None, s3)" and m: "req_method req \<noteq> GET"
  shows "handler B R now c req
           = and_then (write_data R (req_method req))
               (and_then (run_phase AfterOperation (activePlugins R) (afterOperation (hooks R)))
                  (respond B R (req_method req) now)) s3"
proof -
  from ok obtain s1 s2 where
    1: "run_phase BeforeOperation (activePlugins R) (beforeOperation (hooks R)) (start c req) = (None, s1)" and
    2: "run_phase ValidateInput (activePlugins R) (validateInput (hooks R)) s1 = (None, s2)" and
    3: "run_phase ModifyInput (activePlugins R) (modifyInput (hooks R)) s2 = (None, s3)"
    unfolding input_phases_def by (auto elim!: and_then_cases)
  show ?thesis using m 1 2 3
    by (simp add: handler_def persist_def and_then_def)
qed

lemma one_call:
  assumes ok: "input_phases R (start c req) = (None, s3)" and m: "req_method req \<noteq> GET"
    and w: "write_data R (req_method req) s3 = call R k s3"
  shows "db_calls (trace (snd (handler B R now c req))) = [k]"
proof -
  let ?tail = "and_then (run_phase AfterOperation (activePlugins R) (afterOperation (hooks R)))
                  (respond B R (req_method req) now)"
  from emitsD [OF emits_input_phases ok] have "list_all hook_event (trace s3)" by auto
  from hook_events_only [OF this] have t3: "db_calls (trace s3) = []" by simp
  have h: "handler B R now c req = and_then (call R k) ?tail s3"
    using handler_after_input [OF ok m] w by (simp add: and_then_def)
  show ?thesis
  proof (cases "query R k")
    case (Inl e)
    with h t3 show ?thesis by (simp add: and_then_def call_def db_calls_append)
  next
    case (Inr res)
    let ?s4 = "(emit (DbCall k) s3)\<lparr>resultData := res\<rparr>"
    from h Inr have h': "handler B R now c req = ?tail ?s4" by (simp add: and_then_def call_def)
    obtain r s' where t: "?tail ?s4 = (r, s')" by (cases "?tail ?s4")
    from emitsD [OF emits_no_db_tail t] obtain es where "trace s' = trace ?s4 @ es" "list_all no_db es"
      by auto
    with t3 h' t show ?thesis by (simp add: db_calls_append db_calls_no_db)
  qed
qed


section \<open>The phases of a completed request\<close>

lemma nullish_in_place [simp]: "nullish (in_place old new) = nullish old"
  by (cases old; cases new) (simp_all add: in_place_def nullish_def)

lemma nullish_after_hook [simp]: "nullish (request_body (after_hook op a)) = nullish (request_body a)"
  by (simp add: after_hook_def left_by_def split: sum.splits prod.splits)

lemma nullish_after_hooks [simp]:
  "nullish (request_body (foldl (\<lambda>b op. after_hook op b) a hs)) = nullish (request_body a)"
  by (induction hs arbitrary: a) simp_all

lemma nullish_after_phase [simp]:
  "nullish (request_body (args_after_phase ph ps hs a)) = nullish (request_body a)"
  by (simp add: args_after_phase_def args_after_plugins_def)

lemma run_phase_hooks:
  assumes "run_phase ph ps hs s = (None, s')"
  obtains s1 where "objs s1 = args_after_plugins ph ps (objs s)" "run_hooks ph 0 hs s1 = (None, s')"
proof -
  let ?s0 = "s\<lparr>objs := (objs s)\<lparr>shared_ctx := (shared_ctx (objs s))\<lparr>currentHook := ph\<rparr>\<rparr>\<rparr>"
  from assms obtain s1 where p: "run_plugins ph ps ?s0 = (None, s1)" and h: "run_hooks ph 0 hs s1 = (None, s')"
    by (auto simp: run_phase_def set_currentHook_def and_then_def split: prod.splits option.splits)
  from run_plugins_None [OF p] have "objs s1 = args_after_plugins ph ps (objs s)"
    by (simp add: args_after_plugins_def)
  with h that show thesis by blast
qed

lemma last_returned_body:
  "run_hooks ph i hs s = (None, s') \<Longrightarrow> return_their_input hs (objs s) \<Longrightarrow> v = request_body (objs s)
     \<Longrightarrow> last_returned v hs (objs s) = request_body (objs s')"
proof (induction hs arbitrary: s i v)
  case Nil then show ?case by simp
next
  case (Cons op rest)
  from Cons.prems(1) obtain returned a' where f: "op (objs s) = Inr (returned, a')"
    by (cases "op (objs s)") auto
  let ?s1 = "(emit (HookCall ph i (seen (objs s))) s)\<lparr>objs := left_by (objs s) a'\<rparr>"
  from Cons.prems(1) f have r: "run_hooks ph (Suc i) rest ?s1 = (None, s')" by simp
  from Cons.prems(2) f have t: "return_their_input rest (objs ?s1)" and v: "returned = request_body (objs ?s1)"
    by simp_all
  from Cons.IH [OF r t v] f show ?case by simp
qed

lemma call_None:
  "call R k s = (None, s') \<Longrightarrow> objs s' = objs s \<and> trace s' = trace s @ [DbCall k]"
  by (auto simp: call_def emit_def split: sum.splits)

lemma write_data_None:
  assumes "write_data R m s = (None, s')"
  shows "objs s' = objs s \<and> (\<exists>ks. trace s' = trace s @ map DbCall ks)"
proof -
  have c: "objs s' = objs s \<and> (\<exists>ks. trace s' = trace s @ map DbCall ks)" if "call R k s = (None, s')" for k
  proof -
    from call_None [OF that] have "objs s' = objs s" and "trace s' = trace s @ map DbCall [k]" by simp_all
    then show ?thesis by blast
  qed
  have n: "objs s' = objs s \<and> (\<exists>ks. trace s' = trace s @ map DbCall ks)" if "s' = s"
  proof -
    have "trace s = trace s @ map DbCall []" by simp
    then show ?thesis unfolding that by blast
  qed
  from assms have "(\<exists>k. call R k s = (None, s')) \<or> s' = s"
    unfolding write_data_def Let_def by (simp split: if_splits; blast)
  with c n show ?thesis by blast
qed

lemma list_all_in_phase_plugins: "list_all (in_phase ph) (plugin_events ph ps c)"
  by (induction ps arbitrary: c) simp_all

lemma list_all_in_phase_hooks: "list_all (in_phase ph) (hook_events ph i hs a)"
  by (induction hs arbitrary: a i) simp_all

lemma none_in_phase_plugins: "ph \<noteq> ph' \<Longrightarrow> filter (in_phase ph) (plugin_events ph' ps c) = []"
  by (induction ps arbitrary: c) auto

lemma none_in_phase_hooks: "ph \<noteq> ph' \<Longrightarrow> filter (in_phase ph) (hook_events ph' i hs a) = []"
  by (induction hs arbitrary: a i) auto

lemma calls_in_phase_events:
  "calls_in ph (phase_events ph' ps hs a) = (if ph = ph' then phase_events ph' ps hs a else [])"
  by (simp add: calls_in_def phase_events_def list_all_in_phase_plugins list_all_in_phase_hooks
        none_in_phase_plugins none_in_phase_hooks filter_id_conv list_all_iff [symmetric])

lemma calls_in_append: "calls_in ph (xs @ ys) = calls_in ph xs @ calls_in ph ys"
  by (simp add: calls_in_def)

lemma calls_in_db: "calls_in ph (map DbCall ks) = []"
  by (induction ks) (simp_all add: calls_in_def)

lemma calls_in_fan_out: "calls_in ph (fan_out R m now result nonempty) = []"
  by (simp add: calls_in_def fan_out_def filter_empty_conv)

lemma calls_in_Respond: "calls_in ph (Respond st b # es) = calls_in ph es"
  by (simp add: calls_in_def)

lemma persist_None:
  assumes "persist B R req s1 = (None, s2)"
  shows "\<exists>ks. trace s2
            = trace s1
              @ (if req_method req = GET then []
                 else phase_events ValidateInput (activePlugins R) (validateInput (hooks R)) (objs s1)
                      @ phase_events ModifyInput (activePlugins R) (modifyInput (hooks R))
                          (args_after_phase ValidateInput (activePlugins R) (validateInput (hooks R)) (objs s1)))
              @ map DbCall ks"
    and "objs s2
           = (if req_method req = GET then objs s1
              else args_after_phase ModifyInput (activePlugins R) (modifyInput (hooks R))
                     (args_after_phase ValidateInput (activePlugins R) (validateInput (hooks R)) (objs s1)))"
proof -
  have "(\<exists>ks. trace s2
            = trace s1
              @ (if req_method req = GET then []
                 else phase_events ValidateInput (activePlugins R) (validateInput (hooks R)) (objs s1)
                      @ phase_events ModifyInput (activePlugins R) (modifyInput (hooks R))
                          (args_after_phase ValidateInput (activePlugins R) (validateInput (hooks R)) (objs s1)))
              @ map DbCall ks)
        \<and> objs s2
           = (if req_method req = GET then objs s1
              else args_after_phase ModifyInput (activePlugins R) (modifyInput (hooks R))
                     (args_after_phase ValidateInput (activePlugins R) (validateInput (hooks R)) (objs s1)))"
  proof (cases "req_method req = GET")
    case True
    with assms obtain q where "call R (q_findMany q) s1 = (None, s2)"
      by (auto simp: persist_def split: sum.splits)
    from call_None [OF this] have o: "objs s2 = objs s1" and "trace s2 = trace s1 @ [] @ map DbCall [q_findMany q]"
      by simp_all
    then have "\<exists>ks. trace s2 = trace s1 @ [] @ map DbCall ks" by (rule_tac exI)
    with True o show ?thesis by simp
  next
    case False
    with assms obtain sv sm where
      v: "run_phase ValidateInput (activePlugins R) (validateInput (hooks R)) s1 = (None, sv)" and
      m: "run_phase ModifyInput (activePlugins R) (modifyInput (hooks R)) sv = (None, sm)" and
      w: "write_data R (req_method req) sm = (None, s2)"
      unfolding persist_def by (auto elim!: and_then_cases)
    from write_data_None [OF w] obtain ks where "objs s2 = objs sm" and "trace s2 = trace sm @ map DbCall ks"
      by blast
    with run_phase_None [OF v] run_phase_None [OF m] False show ?thesis by auto
  qed
  then show "\<exists>ks. trace s2
            = trace s1
              @ (if req_method req = GET then []
                 else phase_events ValidateInput (activePlugins R) (validateInput (hooks R)) (objs s1)
                      @ phase_events ModifyInput (activePlugins R) (modifyInput (hooks R))
                          (args_after_phase ValidateInput (activePlugins R) (validateInput (hooks R)) (objs s1)))
              @ map DbCall ks"
    and "objs s2
           = (if req_method req = GET then objs s1
              else args_after_phase ModifyInput (activePlugins R) (modifyInput (hooks R))
                     (args_after_phase ValidateInput (activePlugins R) (validateInput (hooks R)) (objs s1)))"
    by blast+
qed

lemma handler_completed:
  assumes "handler B R now c req = (None, s')"
  shows "\<exists>ks nonempty. trace s'
           = phase_events BeforeOperation (activePlugins R) (beforeOperation (hooks R))
               (objects_before R c req BeforeOperation)
             @ (if req_method req = GET then []
                else phase_events ValidateInput (activePlugins R) (validateInput (hooks R))
                       (objects_before R c req ValidateInput)
                     @ phase_events ModifyInput (activePlugins R) (modifyInput (hooks R))
                         (objects_before R c req ModifyInput))
             @ map DbCall ks
             @ phase_events AfterOperation (activePlugins R) (afterOperation (hooks R))
                 (objects_before R c req AfterOperation)
             @ Respond 200 (resultData s') # fan_out R (req_method req) now (resultData s') nonempty"
proof -
  from assms obtain s1 s2 s3 where
    1: "run_phase BeforeOperation (activePlugins R) (beforeOperation (hooks R)) (start c req) = (None, s1)" and
    2: "persist B R req s1 = (None, s2)" and
    3: "run_phase AfterOperation (activePlugins R) (afterOperation (hooks R)) s2 = (None, s3)" and
    4: "respond B R (req_method req) now s3 = (None, s')"
    unfolding handler_def by (auto elim!: and_then_cases)
  from persist_None(1) [OF 2] obtain ks where
    p: "trace s2
            = trace s1
              @ (if req_method req = GET then []
                 else phase_events ValidateInput (activePlugins R) (validateInput (hooks R)) (objs s1)
                      @ phase_events ModifyInput (activePlugins R) (modifyInput (hooks R))
                          (args_after_phase ValidateInput (activePlugins R) (validateInput (hooks R)) (objs s1)))
              @ map DbCall ks"
    by blast
  from respond_None [OF 4] obtain nonempty where
    r: "trace s' = trace s3 @ Respond 200 (resultData s') # fan_out R (req_method req) now (resultData s') nonempty"
    by auto
  from run_phase_None [OF 1] persist_None(2) [OF 2] run_phase_None [OF 3] p r
  have "trace s'
           = phase_events BeforeOperation (activePlugins R) (beforeOperation (hooks R))
               (objects_before R c req BeforeOperation)
             @ (if req_method req = GET then []
                else phase_events ValidateInput (activePlugins R) (validateInput (hooks R))
                       (objects_before R c req ValidateInput)
                     @ phase_events ModifyInput (activePlugins R) (modifyInput (hooks R))
                         (objects_before R c req ModifyInput))
             @ map DbCall ks
             @ phase_events AfterOperation (activePlugins R) (afterOperation (hooks R))
                 (objects_before R c req AfterOperation)
             @ Respond 200 (resultData s') # fan_out R (req_method req) now (resultData s') nonempty"
    by (simp add: objects_before_def Let_def)
  then show ?thesis by blast
qed

lemma runs_phase_GET: "runs_phase GET ph \<longleftrightarrow> ph = BeforeOperation \<or> ph = AfterOperation"
  by (cases ph) simp_all

lemma runs_phase_other: "m \<noteq> GET \<Longrightarrow> runs_phase m ph"
  by (cases m; cases ph) simp_all

lemma handler_calls_in:
  assumes "handler B R now c req = (None, s')"
  shows "calls_in ph (trace s')
           = (if runs_phase (req_method req) ph
              then phase_events ph (activePlugins R) (hooks_in ph (hooks R)) (objects_before R c req ph)
              else [])"
proof -
  from handler_completed [OF assms] obtain ks nonempty where
    t: "trace s'
           = phase_events BeforeOperation (activePlugins R) (beforeOperation (hooks R))
               (objects_before R c req BeforeOperation)
             @ (if req_method req = GET then []
                else phase_events ValidateInput (activePlugins R) (validateInput (hooks R))
                       (objects_before R c req ValidateInput)
                     @ phase_events ModifyInput (activePlugins R) (modifyInput (hooks R))
                         (objects_before R c req ModifyInput))
             @ map DbCall ks
             @ phase_events AfterOperation (activePlugins R) (afterOperation (hooks R))
                 (objects_before R c req AfterOperation)
             @ Respond 200 (resultData s') # fan_out R (req_method req) now (resultData s') nonempty"
    by blast
  show ?thesis
  proof (cases "req_method req = GET")
    case True
    with t show ?thesis
      by (cases ph)
         (simp_all add: calls_in_append calls_in_phase_events calls_in_db calls_in_Respond calls_in_fan_out)
  next
    case False
    with t runs_phase_other [OF False, of ph] show ?thesis
      by (cases ph)
         (simp_all add: calls_in_append calls_in_phase_events calls_in_db calls_in_Respond calls_in_fan_out)
  qed
qed

lemma persist_returning:
  "persist B (R\<lparr>activePlugins := map (returning g) (activePlugins R)\<rparr>) req = persist B R req"
proof -
  have c: "call (R\<lparr>activePlugins := map (returning g) (activePlugins R)\<rparr>) = call R"
    by (intro ext) (simp add: call_def)
  have w: "write_data (R\<lparr>activePlugins := map (returning g) (activePlugins R)\<rparr>) m = write_data R m" for m
    by (rule ext) (simp add: write_data_def c Let_def)
  show ?thesis
    by (rule ext) (simp add: persist_def run_phase_returning c w split: sum.splits)
qed

lemma respond_returning:
  "respond B (R\<lparr>activePlugins := map (returning g) (activePlugins R)\<rparr>) m now = respond B R m now"
proof -
  have 1: "webhookTriggerPayload (R\<lparr>activePlugins := map (returning g) (activePlugins R)\<rparr>)
             = webhookTriggerPayload R"
    by (intro ext) (simp add: webhookTriggerPayload_def)
  have 2: "mergedWebhooks (R\<lparr>activePlugins := map (returning g) (activePlugins R)\<rparr>) = mergedWebhooks R"
    by (simp add: mergedWebhooks_def)
  show ?thesis by (rule ext) (simp add: respond_def 1 2 Let_def split: sum.splits cong: if_cong)
qed

lemma handler_returning:
  "handler B (R\<lparr>activePlugins := map (returning g) (activePlugins R)\<rparr>) now c req = handler B R now c req"
  by (simp add: handler_def persist_returning respond_returning run_phase_returning)

lemma headersSent_quiet: "list_all quiet_event es \<Longrightarrow> \<not> headersSent es"
  by (induction es rule: headersSent.induct) simp_all

lemma phase_events_quiet: "list_all (phase_event ps ph) es \<Longrightarrow> list_all quiet_event es"
  by (induction es) (auto intro: phase_event_quiet)

lemma final_input_body:
  assumes ok: "input_phases R (start c req) = (None, s3)"
    and rt: "return_their_input (modifyInput (hooks R))
               (args_after_plugins ModifyInput (activePlugins R) (objects_before R c req ModifyInput))"
  shows "final_input R c req = request_body (objs s3)"
proof -
  from ok obtain s1 s2 where
    1: "run_phase BeforeOperation (activePlugins R) (beforeOperation (hooks R)) (start c req) = (None, s1)" and
    2: "run_phase ValidateInput (activePlugins R) (validateInput (hooks R)) s1 = (None, s2)" and
    3: "run_phase ModifyInput (activePlugins R) (modifyInput (hooks R)) s2 = (None, s3)"
    unfolding input_phases_def by (auto elim!: and_then_cases)
  from run_phase_None(1) [OF 1] run_phase_None(1) [OF 2]
  have o2: "objs s2 = objects_before R c req ModifyInput"
    by (simp add: objects_before_def Let_def)
  from run_phase_hooks [OF 3] obtain sm where
    om: "objs sm = args_after_plugins ModifyInput (activePlugins R) (objs s2)" and
    rh: "run_hooks ModifyInput 0 (modifyInput (hooks R)) sm = (None, s3)"
    by blast
  from rt om o2 have rt': "return_their_input (modifyInput (hooks R)) (objs sm)" by simp
  from last_returned_body [OF rh rt' refl] om o2 show ?thesis
    by (simp add: final_input_def Let_def)
qed

section \<open>The claims\<close>

text \<open>
  C1.  The claim: if a \<open>beforeOperation\<close> hook returns \<open>false\<close>, the pipeline halts, no later
  hook runs, no persistence call occurs and the operation is denied.  The handler awaits
  each hook and drops what it returns: on a \<open>GET\<close> to a collection whose only
  \<open>beforeOperation\<close> hook returns \<open>false\<close>, \<open>findMany\<close> is called, the rows are sent with
  status 200 and the read webhook fires.
\<close>

theorem veto_is_ignored:
  "fst (handler int_builtins (posts [] (no_hooks\<lparr>beforeOperation := [deny]\<rparr>)) ''T'' ctx0
          (request GET [] JUndefined)) = None
   \<and> trace (snd (handler int_builtins (posts [] (no_hooks\<lparr>beforeOperation := [deny]\<rparr>)) ''T'' ctx0
          (request GET [] JUndefined)))
     = [HookCall BeforeOperation 0
          \<lparr>existingData = JUndefined, inputData = JUndefined, operation = Some Read, ctx = ctx0\<rparr>,
        DbCall (q_findMany []),
        Respond 200 rows,
        WebhookTrigger ''on_read''
          \<lparr>timestamp = ''T'', data = rows, event = Some Read, collection = ''posts''\<rparr>]"
  by code_simp

text \<open>
  C6.  The claim: every error of the pipeline reaches the error boundary, which answers
  500 with the body \<open>{ success: false, message }\<close>, or 400 for the malformed \<open>where\<close>, and
  writes the error to the log.  \<open>errHandler\<close> does answer and log like that when it is
  called with an error, but it is declared with three parameters, and Express hands an
  error only to a middleware declared with four.  So the error that the handler passes to
  \<open>next\<close> goes to the default handler of Express: a create that fails on a unique
  constraint is answered 500 with the default error page and not the JSON body, and
  nothing is logged; the malformed \<open>where\<close> is answered 400 in the same way.
\<close>

theorem errors_bypass_errHandler:
  "errHandler_params = 3
   \<and> errHandler (PrismaError ''PrismaClientKnownRequestError''
                   ''Unique constraint failed on the fields: (title)'' :: int thrown) False
     = (Some \<lparr>status = 500,
               content = JsonBody (JObj [(''success'', JBool False),
                                         (''message'', JStr ''Unique constraint failed on the fields: (title)'')])\<rparr>,
        [PrismaError ''PrismaClientKnownRequestError'' ''Unique constraint failed on the fields: (title)''])
   \<and> serve int_builtins posts_failing ''T'' ctx0
        (request POST [] (JObj [(''data'', JObj [(''title'', JStr ''A'')])]))
     = \<lparr>events = [DbCall (q_create (JObj [(''title'', JStr ''A''), (''length'', JUndefined)]) JUndefined)],
        error_response = Some \<lparr>status = 500, content = DefaultErrorPage\<rparr>,
        logged = []\<rparr>
   \<and> serve int_builtins (posts [] no_hooks) ''T'' ctx0 (request GET [(''where'', JStr ''{bad'')] JUndefined)
     = \<lparr>events = [],
        error_response = Some \<lparr>status = 400, content = DefaultErrorPage\<rparr>,
        logged = []\<rparr>"
  by code_simp

text \<open>
  C8.  The claim: under a key other than \<open>where\<close> and \<open>distinct\<close>, a comma-free value with a
  hyphen becomes a one-entry mapping.  The normalizer builds that mapping (line 28) and
  then applies the numeric test \<open>isNaN\<close> to it (line 31), which converts the mapping to a
  primitive.  For \<open>x-asc\<close> the mapping comes back; for \<open>toString-asc\<close> the mapping has an
  own property \<open>toString\<close> that is not a function, the conversion fails and the normalizer
  raises a \<open>TypeError\<close> in place of returning the mapping.
\<close>

theorem toString_key_raises:
  "mapQuery int_builtins [(''orderBy'', JStr ''x-asc'')]
     = Inr [(''orderBy'', JObj [(''x'', JStr ''asc'')])]
   \<and> mapQuery int_builtins [(''orderBy'', JStr ''toString-asc'')]
     = Inl (JsError ''TypeError'' ''Cannot convert object to primitive value'')"
  by code_simp

text \<open>
  C9.  The claim: normalizing a query whose \<open>where\<close> entry is already structured, such as
  \<open>{where: {"a":1}}\<close>, yields the same structured object, once or twice.  The normalizer
  hands every \<open>where\<close> value to \<open>JSON.parse\<close>, which converts the object to the string
  \<open>[object Object]\<close> and rejects it: the normalizer raises the malformed-JSON error.
\<close>

theorem structured_where_rejected_counterexample:
  "mapQuery int_builtins [(''where'', JObj [(''a'', JNum 1)])]
     = Inl (ContentKittyError informative ''Malformed JSON in the WHERE clause.'' 400)"
  by code_simp

text \<open>
  C9, amended.  The normalizer is not idempotent on structured input: for every query with
  a \<open>where\<close> entry that is already an object (and no other entry that raises), it raises
  the malformed-JSON error with status 400 and returns no object, the first time as any
  later time.  So the output of normalizing \<open>{where: '{"a":1}'}\<close> cannot be normalized
  again.
\<close>

theorem structured_where_rejected:
  assumes "conforms B" and "(''where'', JObj m) \<in> set q" and "only_where_raises B q"
  shows "mapQuery B q = Inl (ContentKittyError informative ''Malformed JSON in the WHERE clause.'' 400)"
proof -
  from assms(1) have "JSON_parse B (JObj m) = None" by (simp add: conforms_def)
  from mapQuery_malformed [OF assms(2) this assms(3)] show ?thesis by (simp add: malformed_def)
qed

theorem structured_where_rejected_witness:
  \<open>conforms int_builtins
   \<and> mapQuery int_builtins [(''where'', JStr ''{"a":1}'')] = Inr [(''where'', JObj [(''a'', JNum 1)])]
   \<and> (''where'', JObj [(''a'', JNum 1)]) \<in> set [(''where'', JObj [(''a'', JNum 1)])]
   \<and> only_where_raises int_builtins [(''where'', JObj [(''a'', JNum 1)])]
   \<and> mapQuery int_builtins [(''where'', JObj [(''a'', JNum 1)])]
       = Inl (ContentKittyError informative ''Malformed JSON in the WHERE clause.'' 400)\<close>
proof -
  have 1: \<open>mapQuery int_builtins [(''where'', JStr ''{"a":1}'')] = Inr [(''where'', JObj [(''a'', JNum 1)])]\<close>
    by code_simp
  have 2: "(''where'', JObj [(''a'', JNum 1)]) \<in> set [(''where'', JObj [(''a'', JNum (1::int))])]" by simp
  have 3: "only_where_raises int_builtins [(''where'', JObj [(''a'', JNum 1)])]" by code_simp
  from structured_where_rejected [OF conforms_int_builtins 2 3] 1 2 3 conforms_int_builtins
  show ?thesis by simp
qed

text \<open>
  C2.  The claim: a read whose \<open>where\<close> is not valid JSON fails before any hook runs.  The
  handler normalizes the query after the \<open>beforeOperation\<close> phase: on such a request to a
  collection with a \<open>beforeOperation\<close> hook, the hook has been called when the error is
  raised.
\<close>

theorem malformed_where_hooks_ran_counterexample:
  "fst (handler int_builtins (posts [] (no_hooks\<lparr>beforeOperation := [noop]\<rparr>)) ''T'' ctx0
          (request GET [(''where'', JStr ''{bad'')] JUndefined))
     = Some (ContentKittyError informative ''Malformed JSON in the WHERE clause.'' 400)
   \<and> trace (snd (handler int_builtins (posts [] (no_hooks\<lparr>beforeOperation := [noop]\<rparr>)) ''T'' ctx0
          (request GET [(''where'', JStr ''{bad'')] JUndefined)))
     = [HookCall BeforeOperation 0
          \<lparr>existingData = JUndefined, inputData = JUndefined, operation = Some Read, ctx = ctx0\<rparr>]"
  by code_simp

text \<open>
  C2, amended.  For every read request whose query has a \<open>where\<close> value that \<open>JSON.parse\<close>
  rejects (and no other entry that raises), the handler runs the \<open>beforeOperation\<close> phase,
  active plugins and hooks.  If a plugin or hook of that phase raises, the request fails
  with what it raised.  Otherwise the request fails with the malformed-JSON error, which
  is surfaced as HTTP 400.  In either case nothing else happens: the events of the
  request are those of the \<open>beforeOperation\<close> phase, so there is no persistence call, no
  hook of a later phase, no response with a result and no webhook.
\<close>

theorem malformed_where_stops_read:
  assumes "req_method req = GET"
    and "(''where'', v) \<in> set (req_query req)" and "JSON_parse B v = None"
    and "only_where_raises B (req_query req)"
  shows "handler B R now c req
           = (case run_phase BeforeOperation (activePlugins R) (beforeOperation (hooks R)) (start c req) of
                (None, s1) \<Rightarrow> (Some (ContentKittyError informative ''Malformed JSON in the WHERE clause.'' 400), s1)
              | (Some e, s1) \<Rightarrow> (Some e, s1))
         \<and> list_all (phase_event (activePlugins R) BeforeOperation) (trace (snd (handler B R now c req)))
         \<and> (fst (run_phase BeforeOperation (activePlugins R) (beforeOperation (hooks R)) (start c req)) = None \<longrightarrow>
              error_response (serve B R now c req) = Some \<lparr>status = 400, content = DefaultErrorPage\<rparr>)"
proof -
  let ?P = "run_phase BeforeOperation (activePlugins R) (beforeOperation (hooks R))"
  obtain r s1 where p: "?P (start c req) = (r, s1)" by (cases "?P (start c req)")
  from emitsD [OF emits_run_phase p]
  have tr: "list_all (phase_event (activePlugins R) BeforeOperation) (trace s1)" by auto
  from headersSent_quiet [OF phase_events_quiet [OF tr]] have hs: "\<not> headersSent (trace s1)" .
  have mq: "mapQuery B (req_query req) = Inl malformed"
    using assms(2-4) by (rule mapQuery_malformed)
  have h: "handler B R now c req = (case r of None \<Rightarrow> (Some malformed, s1) | Some e \<Rightarrow> (Some e, s1))"
    using p mq assms(1)
    by (cases r) (simp_all add: handler_def and_then_def persist_def)
  have sv: "error_response (serve B R now c req) = Some \<lparr>status = 400, content = DefaultErrorPage\<rparr>"
    if "r = None"
    using that h hs
    by (simp add: serve_def next_err_def errHandler_params_def finalhandler_def error_status_def malformed_def)
  show ?thesis using h p tr sv by (cases r) (simp_all add: malformed_def)
qed

theorem malformed_where_stops_read_witness:
  "req_method (request GET [(''where'', JStr ''{bad'')] JUndefined) = GET
   \<and> (''where'', JStr ''{bad'') \<in> set (req_query (request GET [(''where'', JStr ''{bad'')] JUndefined))
   \<and> JSON_parse int_builtins (JStr ''{bad'') = None
   \<and> only_where_raises int_builtins (req_query (request GET [(''where'', JStr ''{bad'')] JUndefined))
   \<and> fst (run_phase BeforeOperation [marking] [noop]
            (start ctx0 (request GET [(''where'', JStr ''{bad'')] JUndefined))) = None
   \<and> list_all (phase_event [marking] BeforeOperation)
        (trace (snd (handler int_builtins (posts [marking] (no_hooks\<lparr>beforeOperation := [noop], afterOperation := [noop]\<rparr>)) ''T'' ctx0
           (request GET [(''where'', JStr ''{bad'')] JUndefined))))
   \<and> error_response (serve int_builtins (posts [marking] (no_hooks\<lparr>beforeOperation := [noop], afterOperation := [noop]\<rparr>)) ''T'' ctx0
        (request GET [(''where'', JStr ''{bad'')] JUndefined))
      = Some \<lparr>status = 400, content = DefaultErrorPage\<rparr>"
proof -
  let ?req = "request GET [(''where'', JStr ''{bad'')] JUndefined"
  let ?R = "posts [marking] (no_hooks\<lparr>beforeOperation := [noop], afterOperation := [noop]\<rparr>)"
  have 1: "req_method ?req = GET" by (simp add: request_def)
  have 2: "(''where'', JStr ''{bad'') \<in> set (req_query ?req)" by (simp add: request_def)
  have 3: "JSON_parse int_builtins (JStr ''{bad'') = None" by code_simp
  have 4: "only_where_raises int_builtins (req_query ?req)" by code_simp
  have a: "activePlugins ?R = [marking]" and b: "beforeOperation (hooks ?R) = [noop]"
    by (simp_all add: posts_def no_hooks_def)
  have 5: "fst (run_phase BeforeOperation [marking] [noop] (start ctx0 ?req)) = None"
    by code_simp
  note t = malformed_where_stops_read [OF 1 2 3 4, of ?R "''T''" ctx0]
  from t [THEN conjunct2, THEN conjunct1, unfolded a]
  have 6: "list_all (phase_event [marking] BeforeOperation)
        (trace (snd (handler int_builtins ?R ''T'' ctx0 ?req)))" .
  from t [THEN conjunct2, THEN conjunct2, unfolded a b, THEN mp, OF 5]
  have 7: "error_response (serve int_builtins ?R ''T'' ctx0 ?req)
      = Some \<lparr>status = 400, content = DefaultErrorPage\<rparr>" .
  from 1 2 3 4 5 6 7 show ?thesis by blast
qed

text \<open>
  C3.  The claim: a request to a collection route with a method outside GET, POST, PUT and
  DELETE is rejected with 404 and no hook runs.  The route is registered with \<open>app.all\<close>
  and the handler has no test on the method: on a \<open>PATCH\<close> the handler runs the hooks and
  answers 200 with the empty list.
\<close>

theorem other_methods_are_dispatched_counterexample:
  "fst (handler int_builtins (posts [] (no_hooks\<lparr>beforeOperation := [noop], afterOperation := [noop]\<rparr>)) ''T'' ctx0
          (request PATCH [] (JObj []))) = None
   \<and> trace (snd (handler int_builtins (posts [] (no_hooks\<lparr>beforeOperation := [noop], afterOperation := [noop]\<rparr>)) ''T'' ctx0
          (request PATCH [] (JObj []))))
     = [HookCall BeforeOperation 0
          \<lparr>existingData = JUndefined, inputData = JObj [], operation = None, ctx = ctx0\<rparr>,
        HookCall AfterOperation 0
          \<lparr>existingData = JUndefined, inputData = JObj [], operation = None,
             ctx = ctx0\<lparr>currentHook := AfterOperation\<rparr>\<rparr>,
        Respond 200 (JArr [])]"
  by code_simp

text \<open>
  C3, amended.  The table maps GET to read, POST to create, PUT to update and DELETE to
  delete, one to one and onto the four operations, and no other method to an operation.
  A request with another method that reaches the handler of a collection is not
  rejected: the handler finds no operation for it, makes no persistence call and triggers
  no webhook; the events of the request are calls of plugins and hooks, followed, if the
  handler completes, by the answer 200 with the empty list.
\<close>

theorem other_methods_are_dispatched:
  "bij_betw flippedCrudMapping {GET, POST, PUT, DELETE} (range Some)
   \<and> flippedCrudMapping GET = Some Read \<and> flippedCrudMapping POST = Some Create
   \<and> flippedCrudMapping PUT = Some Update \<and> flippedCrudMapping DELETE = Some Delete
   \<and> (req_method req \<notin> {GET, POST, PUT, DELETE} \<longrightarrow>
        flippedCrudMapping (req_method req) = None
        \<and> db_calls (trace (snd (handler B R now c req))) = []
        \<and> triggers (trace (snd (handler B R now c req))) = []
        \<and> responses (trace (snd (handler B R now c req)))
            = (if fst (handler B R now c req) = None then [(200, JArr [])] else [])
        \<and> trace (snd (handler B R now c req))
            = filter hook_event (trace (snd (handler B R now c req)))
              @ (if fst (handler B R now c req) = None then [Respond 200 (JArr [])] else []))"
proof -
  have other: "flippedCrudMapping (req_method req) = None
        \<and> db_calls (trace (snd (handler B R now c req))) = []
        \<and> triggers (trace (snd (handler B R now c req))) = []
        \<and> responses (trace (snd (handler B R now c req)))
            = (if fst (handler B R now c req) = None then [(200, JArr [])] else [])
        \<and> trace (snd (handler B R now c req))
            = filter hook_event (trace (snd (handler B R now c req)))
              @ (if fst (handler B R now c req) = None then [Respond 200 (JArr [])] else [])"
    if m: "req_method req \<notin> {GET, POST, PUT, DELETE}"
  proof -
    note none = flippedCrudMapping_other [OF m]
    obtain r s' where h: "handler B R now c req = (r, s')" by (cases "handler B R now c req")
    then have "and_then (before_response B R req) (respond B R (req_method req) now) (start c req) = (r, s')"
      by (simp add: handler_eq)
    then show ?thesis
    proof (cases rule: and_then_cases)
      case (1 e)
      from emitsD [OF before_response_other(1) [OF m] 1(1)]
      have "list_all hook_event (trace s')" by auto
      from hook_events_only [OF this] 1 h none show ?thesis by simp
    next
      case (2 s1)
      from emitsD [OF before_response_other(1) [OF m] 2(1)]
      have hs: "list_all hook_event (trace s1)" by auto
      from keeps_resultD [OF before_response_other(2) [OF m] 2(1)]
      have rd: "resultData s1 = JArr []" by simp
      from 2(2) rd none have "r = None" and "trace s' = trace s1 @ [Respond 200 (JArr [])]"
        by (auto simp: respond_def length_gt_zero_def Let_def fires_on_def foldl_unchanged)
      with hook_events_only [OF hs] h none show ?thesis
        by (simp add: db_calls_append triggers_append responses_append)
    qed
  qed
  from other flippedCrudMapping_bij show ?thesis by simp
qed

theorem other_methods_are_dispatched_witness:
  "req_method (request PATCH [] (JObj [])) \<notin> {GET, POST, PUT, DELETE}
   \<and> fst (handler int_builtins (posts [marking] (no_hooks\<lparr>beforeOperation := [noop]\<rparr>)) ''T'' ctx0
            (request PATCH [] (JObj []))) = None
   \<and> db_calls (trace (snd (handler int_builtins (posts [marking] (no_hooks\<lparr>beforeOperation := [noop]\<rparr>)) ''T'' ctx0
            (request PATCH [] (JObj []))))) = []
   \<and> triggers (trace (snd (handler int_builtins (posts [marking] (no_hooks\<lparr>beforeOperation := [noop]\<rparr>)) ''T'' ctx0
            (request PATCH [] (JObj []))))) = []
   \<and> responses (trace (snd (handler int_builtins (posts [marking] (no_hooks\<lparr>beforeOperation := [noop]\<rparr>)) ''T'' ctx0
            (request PATCH [] (JObj []))))) = [(200, JArr [])]"
proof -
  let ?R = "posts [marking] (no_hooks\<lparr>beforeOperation := [noop]\<rparr>)"
  let ?req = "request PATCH [] (JObj [])"
  have m: "req_method ?req \<notin> {GET, POST, PUT, DELETE}" by (simp add: request_def)
  have ok: "fst (handler int_builtins ?R ''T'' ctx0 ?req) = None" by code_simp
  from other_methods_are_dispatched [of ?req int_builtins ?R "''T''" ctx0] m ok
  have 1: "db_calls (trace (snd (handler int_builtins ?R ''T'' ctx0 ?req))) = []"
    and 2: "triggers (trace (snd (handler int_builtins ?R ''T'' ctx0 ?req))) = []"
    and 3: "responses (trace (snd (handler int_builtins ?R ''T'' ctx0 ?req))) = [(200, JArr [])]"
    by simp_all
  from m ok 1 2 3 show ?thesis by blast
qed

text \<open>
  C4.  The claim: on every write, delete included, the persistence primitive receives a
  data object, the merge of the defaults with the \<open>inputData.data\<close> that the \<open>modifyInput\<close>
  hooks returned.  A delete hands over no data at all, only the property \<open>where\<close> of the
  input.  And on a create whose \<open>modifyInput\<close> hook returns a replacement with title B
  and leaves its argument alone, the record created has title A.
\<close>

theorem persisted_data_counterexample:
  "db_calls (trace (snd (handler int_builtins (posts [] no_hooks) ''T'' ctx0
          (request DELETE [] (JObj [(''data'', JObj [(''title'', JStr ''A'')]),
                                    (''where'', JObj [(''id'', JNum 1)])])))))
     = [q_delete (JObj [(''id'', JNum 1)])]
   \<and> retitle (objs (start ctx0 (request POST [] (JObj [(''data'', JObj [(''title'', JStr ''A'')])]))))
     = Inr (JObj [(''data'', JObj [(''title'', JStr ''B'')])],
            objs (start ctx0 (request POST [] (JObj [(''data'', JObj [(''title'', JStr ''A'')])]))))
   \<and> db_calls (trace (snd (handler int_builtins (posts [] (no_hooks\<lparr>modifyInput := [retitle]\<rparr>)) ''T'' ctx0
          (request POST [] (JObj [(''data'', JObj [(''title'', JStr ''A'')])])))))
     = [q_create (JObj [(''title'', JStr ''A''), (''length'', JUndefined)]) JUndefined]"
  by code_simp

text \<open>
  C4, amended.  Take a write request with a body, whose plugins and hooks of the
  \<open>beforeOperation\<close>, \<open>validateInput\<close> and \<open>modifyInput\<close> phases do not raise, and whose
  \<open>modifyInput\<close> hooks each return the input object of the request as they leave it.
  The final \<open>inputData\<close> is what the last of these hooks returned (the input of the
  request if there is none).  The handler makes exactly one persistence call.  For a create or an update
  its data is the merge of the default template with the property \<open>data\<close> of the final
  \<open>inputData\<close> (element by element if that is a list), and a field of the input overrides
  the default of the same key.  A delete hands over only the property \<open>where\<close> of the
  final \<open>inputData\<close>.
\<close>

theorem persisted_data_is_merged_input:
  assumes "fst (input_phases R (start c req)) = None"
    and "\<not> nullish (req_body req)"
    and "return_their_input (modifyInput (hooks R))
           (args_after_plugins ModifyInput (activePlugins R) (objects_before R c req ModifyInput))"
  shows "(req_method req = POST \<longrightarrow>
          db_calls (trace (snd (handler B R now c req)))
            = [if isArray (get_prop (final_input R c req) ''data'')
               then q_createMany (mergeData (models_cKey R) (get_prop (final_input R c req) ''data''))
                      (get_prop (final_input R c req) ''skipDuplicates'')
               else q_create (mergeData (models_cKey R) (get_prop (final_input R c req) ''data''))
                      (get_prop (final_input R c req) ''select'')])
     \<and> (req_method req = PUT \<longrightarrow>
          db_calls (trace (snd (handler B R now c req)))
            = [if isArray (get_prop (final_input R c req) ''data'')
               then q_updateMany (mergeData (models_cKey R) (get_prop (final_input R c req) ''data''))
                      (get_prop (final_input R c req) ''where'')
               else q_update (mergeData (models_cKey R) (get_prop (final_input R c req) ''data''))
                      (get_prop (final_input R c req) ''where'')])
     \<and> (req_method req = DELETE \<longrightarrow>
          db_calls (trace (snd (handler B R now c req)))
            = [if isArray (get_prop (final_input R c req) ''data'')
               then q_deleteMany (get_prop (final_input R c req) ''where'')
               else q_delete (get_prop (final_input R c req) ''where'')])
     \<and> mergeData (models_cKey R) (JArr xs) = JArr (map (merge (models_cKey R)) xs)
     \<and> mergeData (models_cKey R) (JObj x) = merge (models_cKey R) (JObj x)
     \<and> (distinct (map fst dflt) \<and> distinct (map fst x) \<longrightarrow>
          get_prop (merge (JObj dflt) (JObj x)) k
            = (case map_of x k of Some v \<Rightarrow> v | None \<Rightarrow> get_prop (JObj dflt) k))"
proof -
  from assms(1) obtain s3 where ok: "input_phases R (start c req) = (None, s3)"
    by (cases "input_phases R (start c req)") simp
  from input_phases_args [OF ok] assms(2) have nn: "\<not> nullish (request_body (objs s3))"
    by (simp add: start_def)
  then have nu: "request_body (objs s3) \<noteq> JUndefined" and nl: "request_body (objs s3) \<noteq> JNull"
    by (simp_all add: nullish_def)
  note fi = final_input_body [OF ok assms(3)]
  have post: "db_calls (trace (snd (handler B R now c req)))
            = [if isArray (get_prop (final_input R c req) ''data'')
               then q_createMany (mergeData (models_cKey R) (get_prop (final_input R c req) ''data''))
                      (get_prop (final_input R c req) ''skipDuplicates'')
               else q_create (mergeData (models_cKey R) (get_prop (final_input R c req) ''data''))
                      (get_prop (final_input R c req) ''select'')]"
    if m: "req_method req = POST"
    unfolding fi
    by (rule one_call [OF ok]) (use m nu nl in \<open>simp_all add: write_data_def Let_def\<close>)
  have put: "db_calls (trace (snd (handler B R now c req)))
            = [if isArray (get_prop (final_input R c req) ''data'')
               then q_updateMany (mergeData (models_cKey R) (get_prop (final_input R c req) ''data''))
                      (get_prop (final_input R c req) ''where'')
               else q_update (mergeData (models_cKey R) (get_prop (final_input R c req) ''data''))
                      (get_prop (final_input R c req) ''where'')]"
    if m: "req_method req = PUT"
    unfolding fi
    by (rule one_call [OF ok]) (use m nu nl in \<open>simp_all add: write_data_def Let_def\<close>)
  have del: "db_calls (trace (snd (handler B R now c req)))
            = [if isArray (get_prop (final_input R c req) ''data'')
               then q_deleteMany (get_prop (final_input R c req) ''where'')
               else q_delete (get_prop (final_input R c req) ''where'')]"
    if m: "req_method req = DELETE"
    unfolding fi
    by (rule one_call [OF ok]) (use m nu nl in \<open>simp_all add: write_data_def Let_def\<close>)
  from post put del merge_lookup [of dflt x k]
  show ?thesis by (simp add: mergeData_def)
qed

theorem persisted_data_is_merged_input_witness:
  "fst (input_phases (posts [] (no_hooks\<lparr>modifyInput := [entitle]\<rparr>))
          (start ctx0 (request POST [] (JObj [(''data'', JObj [(''title'', JStr ''A'')])])))) = None
   \<and> \<not> nullish (req_body (request POST [] (JObj [(''data'', JObj [(''title'', JStr ''A'')])])))
   \<and> return_their_input (modifyInput (hooks (posts [] (no_hooks\<lparr>modifyInput := [entitle]\<rparr>))))
        (args_after_plugins ModifyInput (activePlugins (posts [] (no_hooks\<lparr>modifyInput := [entitle]\<rparr>)))
           (objects_before (posts [] (no_hooks\<lparr>modifyInput := [entitle]\<rparr>)) ctx0
              (request POST [] (JObj [(''data'', JObj [(''title'', JStr ''A'')])])) ModifyInput))
   \<and> final_input (posts [] (no_hooks\<lparr>modifyInput := [entitle]\<rparr>)) ctx0
        (request POST [] (JObj [(''data'', JObj [(''title'', JStr ''A'')])]))
       = JObj [(''data'', JObj [(''title'', JStr ''C'')])]
   \<and> req_method (request POST [] (JObj [(''data'', JObj [(''title'', JStr ''A'')])])) = POST
   \<and> db_calls (trace (snd (handler int_builtins (posts [] (no_hooks\<lparr>modifyInput := [entitle]\<rparr>)) ''T'' ctx0
          (request POST [] (JObj [(''data'', JObj [(''title'', JStr ''A'')])])))))
     = [q_create (JObj [(''title'', JStr ''C''), (''length'', JUndefined)]) JUndefined]
   \<and> distinct (map fst [(''title'', JUndefined :: int jsval), (''length'', JUndefined)])
   \<and> distinct (map fst [(''title'', JStr ''C'' :: int jsval)])
   \<and> get_prop (merge (JObj [(''title'', JUndefined), (''length'', JUndefined)]) (JObj [(''title'', JStr ''C'' :: int jsval)])) ''title''
       = JStr ''C''"
proof -
  let ?R = "posts [] (no_hooks\<lparr>modifyInput := [entitle]\<rparr>)"
  let ?req = "request POST [] (JObj [(''data'', JObj [(''title'', JStr ''A'')])])"
  have ok: "fst (input_phases ?R (start ctx0 ?req)) = None" by code_simp
  have nn: "\<not> nullish (req_body ?req)" by (simp add: nullish_def request_def)
  have rt: "return_their_input (modifyInput (hooks ?R))
        (args_after_plugins ModifyInput (activePlugins ?R) (objects_before ?R ctx0 ?req ModifyInput))"
    by code_simp
  have fi: "final_input ?R ctx0 ?req = JObj [(''data'', JObj [(''title'', JStr ''C'')])]" by code_simp
  have m: "req_method ?req = POST" by (simp add: request_def)
  have d1: "distinct (map fst [(''title'', JUndefined :: int jsval), (''length'', JUndefined)])" by simp
  have d2: "distinct (map fst [(''title'', JStr ''C'' :: int jsval)])" by simp
  have v: "(if isArray (get_prop (final_input ?R ctx0 ?req) ''data'')
            then q_createMany (mergeData (models_cKey ?R) (get_prop (final_input ?R ctx0 ?req) ''data''))
                   (get_prop (final_input ?R ctx0 ?req) ''skipDuplicates'')
            else q_create (mergeData (models_cKey ?R) (get_prop (final_input ?R ctx0 ?req) ''data''))
                   (get_prop (final_input ?R ctx0 ?req) ''select''))
           = q_create (JObj [(''title'', JStr ''C''), (''length'', JUndefined)]) JUndefined"
    by code_simp
  note t = persisted_data_is_merged_input [OF ok nn rt, where B = int_builtins and now = "''T''"
      and dflt = "[(''title'', JUndefined), (''length'', JUndefined)]"
      and x = "[(''title'', JStr ''C'')]" and k = "''title''"]
  note c0 = t [THEN conjunct1, THEN mp, OF m]
  from c0 v have c: "db_calls (trace (snd (handler int_builtins ?R ''T'' ctx0 ?req)))
     = [q_create (JObj [(''title'', JStr ''C''), (''length'', JUndefined)]) JUndefined]"
    by (simp only:)
  from d1 d2 have d: "distinct (map fst [(''title'', JUndefined :: int jsval), (''length'', JUndefined)])
     \<and> distinct (map fst [(''title'', JStr ''C'' :: int jsval)])" by blast
  note g0 = t [THEN conjunct2, THEN conjunct2, THEN conjunct2, THEN conjunct2, THEN conjunct2, THEN mp, OF d]
  from g0 have g: "get_prop (merge (JObj [(''title'', JUndefined), (''length'', JUndefined)])
         (JObj [(''title'', JStr ''C'' :: int jsval)])) ''title'' = JStr ''C''"
    by simp
  from ok nn rt fi m c d1 d2 g show ?thesis by blast
qed

text \<open>
  C5.  For every request: if the handler completes, the webhooks triggered are exactly
  those of the merged list (the global webhooks followed by those of the collection, a
  webhook that is in both lists counting twice) whose \<open>onOperation\<close> holds the operation
  of the request, in the order of the list and each with the event envelope; a method
  without an operation triggers none; if the handler fails, no webhook is triggered; and
  in either case no webhook is triggered before the response has been written.
\<close>

theorem fan_out_after_response:
  "(fst (handler B R now c req) = None \<longrightarrow>
      triggers (trace (snd (handler B R now c req)))
        = (case flippedCrudMapping (req_method req) of
             None \<Rightarrow> []
           | Some op \<Rightarrow>
               map (\<lambda>obj. (name obj,
                            \<lparr> timestamp = now,
                              data = (if length_gt_zero B (resultData (snd (handler B R now c req))) = Inr True
                                      then resultData (snd (handler B R now c req)) else JNull),
                              event = Some op,
                              collection = cKey R \<rparr>))
                 (filter (\<lambda>obj. op \<in> set (onOperation obj)) (globalWebhooks R @ webhooks R))))
   \<and> (fst (handler B R now c req) \<noteq> None \<longrightarrow> triggers (trace (snd (handler B R now c req))) = [])
   \<and> responded_first (trace (snd (handler B R now c req)))"
proof -
  obtain r s' where h: "handler B R now c req = (r, s')" by (cases "handler B R now c req")
  from h show ?thesis
  proof (cases rule: handler_cases)
    case (early e)
    then show ?thesis using h by (simp add: triggers_quiet responded_first_quiet)
  next
    case (late e s1)
    then show ?thesis using h by (simp add: triggers_append triggers_quiet responded_first_after)
  next
    case (completed s1 nonempty)
    have sel: "triggers (fan_out R (req_method req) now (resultData s') nonempty)
        = (case flippedCrudMapping (req_method req) of
             None \<Rightarrow> []
           | Some op \<Rightarrow>
               map (\<lambda>obj. (name obj,
                            \<lparr> timestamp = now,
                              data = (if nonempty then resultData s' else JNull),
                              event = Some op,
                              collection = cKey R \<rparr>))
                 (filter (\<lambda>obj. op \<in> set (onOperation obj)) (globalWebhooks R @ webhooks R)))"
      by (cases "flippedCrudMapping (req_method req)")
         (simp_all add: triggers_fan_out fires_on_def mergedWebhooks_def webhookTriggerPayload_def)
    from completed(4) have ne: "(length_gt_zero B (resultData s') = Inr True) = nonempty" by auto
    from completed(3,5) have tr: "triggers (trace s') = triggers (fan_out R (req_method req) now (resultData s') nonempty)"
      by (simp add: triggers_append triggers_quiet)
    from completed(3,5) have rf: "responded_first (trace s')" by (simp add: responded_first_after)
    from tr sel have tg: "triggers (trace s')
        = (case flippedCrudMapping (req_method req) of
             None \<Rightarrow> []
           | Some op \<Rightarrow>
               map (\<lambda>obj. (name obj,
                            \<lparr> timestamp = now,
                              data = (if nonempty then resultData s' else JNull),
                              event = Some op,
                              collection = cKey R \<rparr>))
                 (filter (\<lambda>obj. op \<in> set (onOperation obj)) (globalWebhooks R @ webhooks R)))"
      by (simp only:)
    from completed(1) show ?thesis unfolding h fst_conv snd_conv ne using tg rf by blast
  qed
qed

theorem fan_out_after_response_witness:
  "fst (handler int_builtins (posts [] no_hooks) ''T'' ctx0
          (request POST [] (JObj [(''data'', JArr [JObj [(''title'', JStr ''A'')], JObj [(''title'', JStr ''B'')]])]))) = None
   \<and> triggers (trace (snd (handler int_builtins (posts [] no_hooks) ''T'' ctx0
          (request POST [] (JObj [(''data'', JArr [JObj [(''title'', JStr ''A'')], JObj [(''title'', JStr ''B'')]])])))))
       = [(''on_write'', \<lparr>timestamp = ''T'', data = JNull, event = Some Create, collection = ''posts''\<rparr>)]
   \<and> fst (handler int_builtins (posts [] no_hooks) ''T'' ctx0 (request GET [] JUndefined)) = None
   \<and> triggers (trace (snd (handler int_builtins (posts [] no_hooks) ''T'' ctx0 (request GET [] JUndefined))))
       = [(''on_read'', \<lparr>timestamp = ''T'', data = rows, event = Some Read, collection = ''posts''\<rparr>)]
   \<and> responded_first (trace (snd (handler int_builtins (posts [] no_hooks) ''T'' ctx0 (request GET [] JUndefined))))
   \<and> fst (handler int_builtins (posts [] no_hooks) ''T'' ctx0 (request PATCH [] (JObj []))) = None
   \<and> triggers (trace (snd (handler int_builtins (posts [] no_hooks) ''T'' ctx0 (request PATCH [] (JObj []))))) = []
   \<and> fst (handler int_builtins (posts [] no_hooks) ''T'' ctx0 (request POST [] JNull)) \<noteq> None
   \<and> triggers (trace (snd (handler int_builtins (posts [] no_hooks) ''T'' ctx0 (request POST [] JNull)))) = []"
proof -
  let ?R = "posts [] no_hooks"
  let ?post = "request POST [] (JObj [(''data'', JArr [JObj [(''title'', JStr ''A'')], JObj [(''title'', JStr ''B'')]])])"
  let ?p = "handler int_builtins ?R ''T'' ctx0 ?post"
  let ?h = "handler int_builtins ?R ''T'' ctx0 (request GET [] JUndefined)"
  let ?o = "handler int_builtins ?R ''T'' ctx0 (request PATCH [] (JObj []))"
  let ?f = "handler int_builtins ?R ''T'' ctx0 (request POST [] JNull)"
  have okp: "fst ?p = None" by code_simp
  have vp: "(case flippedCrudMapping (req_method ?post) of
             None \<Rightarrow> []
           | Some op \<Rightarrow>
               map (\<lambda>obj. (name obj,
                            \<lparr> timestamp = ''T'',
                              data = (if length_gt_zero int_builtins (resultData (snd ?p)) = Inr True
                                      then resultData (snd ?p) else JNull),
                              event = Some op,
                              collection = cKey ?R \<rparr>))
                 (filter (\<lambda>obj. op \<in> set (onOperation obj)) (globalWebhooks ?R @ webhooks ?R)))
         = [(''on_write'', \<lparr>timestamp = ''T'', data = JNull, event = Some Create, collection = ''posts''\<rparr>)]"
    by code_simp
  note tp = fan_out_after_response [of int_builtins ?R "''T''" ctx0 ?post]
  from tp [THEN conjunct1, THEN mp, OF okp] vp
  have 0: "triggers (trace (snd ?p))
       = [(''on_write'', \<lparr>timestamp = ''T'', data = JNull, event = Some Create, collection = ''posts''\<rparr>)]"
    by (simp only:)
  have ok: "fst ?h = None" by code_simp
  have v: "(case flippedCrudMapping (req_method (request GET [] JUndefined)) of
             None \<Rightarrow> []
           | Some op \<Rightarrow>
               map (\<lambda>obj. (name obj,
                            \<lparr> timestamp = ''T'',
                              data = (if length_gt_zero int_builtins (resultData (snd ?h)) = Inr True
                                      then resultData (snd ?h) else JNull),
                              event = Some op,
                              collection = cKey ?R \<rparr>))
                 (filter (\<lambda>obj. op \<in> set (onOperation obj)) (globalWebhooks ?R @ webhooks ?R)))
         = [(''on_read'', \<lparr>timestamp = ''T'', data = rows, event = Some Read, collection = ''posts''\<rparr>)]"
    by code_simp
  note t = fan_out_after_response [of int_builtins ?R "''T''" ctx0 "request GET [] JUndefined"]
  from t [THEN conjunct1, THEN mp, OF ok] v
  have 1: "triggers (trace (snd ?h))
       = [(''on_read'', \<lparr>timestamp = ''T'', data = rows, event = Some Read, collection = ''posts''\<rparr>)]"
    by (simp only:)
  from t have 2: "responded_first (trace (snd ?h))" by blast
  have oko: "fst ?o = None" by code_simp
  have vo: "(case flippedCrudMapping (req_method (request PATCH [] (JObj []))) of
             None \<Rightarrow> []
           | Some op \<Rightarrow>
               map (\<lambda>obj. (name obj,
                            \<lparr> timestamp = ''T'',
                              data = (if length_gt_zero int_builtins (resultData (snd ?o)) = Inr True
                                      then resultData (snd ?o) else JNull),
                              event = Some op,
                              collection = cKey ?R \<rparr>))
                 (filter (\<lambda>obj. op \<in> set (onOperation obj)) (globalWebhooks ?R @ webhooks ?R)))
         = []"
    by code_simp
  note w = fan_out_after_response [of int_builtins ?R "''T''" ctx0 "request PATCH [] (JObj [])"]
  from w [THEN conjunct1, THEN mp, OF oko] vo
  have 3: "triggers (trace (snd ?o)) = []"
    by (simp only:)
  have ko: "fst ?f \<noteq> None" by code_simp
  note u = fan_out_after_response [of int_builtins ?R "''T''" ctx0 "request POST [] JNull"]
  from u [THEN conjunct2, THEN conjunct1, THEN mp, OF ko]
  have 4: "triggers (trace (snd ?f)) = []" .
  from okp 0 ok 1 2 oko 3 ko 4 show ?thesis by blast
qed

text \<open>
  C7.  The claim: if a plugin function returns a modified Context, the hooks that follow
  it in the phase observe that Context.  The handler calls \<open>obj.fn(ctx)\<close> and drops the
  result: a plugin that returns a flagged copy of the Context and leaves the shared one
  alone is followed by a hook that observes no flag.
\<close>

theorem plugin_return_dropped_counterexample:
  "fn flagging ctx0 = Inr (ctx0\<lparr>customVars := [(''flag'', JBool True)]\<rparr>, ctx0)
   \<and> trace (snd (handler int_builtins (posts [flagging] (no_hooks\<lparr>beforeOperation := [noop]\<rparr>)) ''T'' ctx0
          (request GET [] JUndefined)))
     = [PluginCall ''flagging'' BeforeOperation ctx0,
        HookCall BeforeOperation 0
          \<lparr>existingData = JUndefined, inputData = JUndefined, operation = Some Read, ctx = ctx0\<rparr>,
        DbCall (q_findMany []),
        PluginCall ''flagging'' AfterOperation (ctx0\<lparr>currentHook := AfterOperation\<rparr>),
        Respond 200 rows,
        WebhookTrigger ''on_read''
          \<lparr>timestamp = ''T'', data = rows, event = Some Read, collection = ''posts''\<rparr>]"
  by code_simp

text \<open>
  C7, amended.  Plugin functions are taken to be synchronous.  In a request that
  completes, the calls of plugins and hooks of each phase that the request has (a read has
  no \<open>validateInput\<close> and no \<open>modifyInput\<close> phase) are these: one call of each active plugin's
  function, in the order of registration, each on the shared Context as the plugins
  before it left it; then one call of each hook of the phase, in the order of declaration,
  each reading \<open>operationArgs\<close> as the plugins of the phase and the hooks before it left
  it, whose \<open>ctx\<close> is the shared Context unless a hook has assigned another object to it.
  What a plugin function returns has no effect on the request: only what it changes in
  place is observed.  Only plugins of the active list are ever called by the handler.
\<close>

theorem plugins_act_in_place:
  "(fst (handler B R now c req) = None \<longrightarrow>
      calls_in ph (trace (snd (handler B R now c req)))
        = (if runs_phase (req_method req) ph
           then plugin_events ph (activePlugins R) ((shared_ctx (objects_before R c req ph))\<lparr>currentHook := ph\<rparr>)
                @ hook_events ph 0 (hooks_in ph (hooks R))
                    (args_after_plugins ph (activePlugins R) (objects_before R c req ph))
           else []))
   \<and> handler B (R\<lparr>activePlugins := map (returning g) (activePlugins R)\<rparr>) now c req = handler B R now c req
   \<and> list_all (from_plugins (activePlugins R)) (trace (snd (handler B R now c req)))"
proof -
  have "calls_in ph (trace (snd (handler B R now c req)))
        = (if runs_phase (req_method req) ph
           then plugin_events ph (activePlugins R) ((shared_ctx (objects_before R c req ph))\<lparr>currentHook := ph\<rparr>)
                @ hook_events ph 0 (hooks_in ph (hooks R))
                    (args_after_plugins ph (activePlugins R) (objects_before R c req ph))
           else [])"
    if "fst (handler B R now c req) = None"
  proof -
    from that obtain s' where h: "handler B R now c req = (None, s')"
      by (cases "handler B R now c req") simp
    from handler_calls_in [OF h] h show ?thesis by (simp add: phase_events_def)
  qed
  then show ?thesis by (simp add: handler_returning handler_from_plugins)
qed

theorem plugins_act_in_place_witness:
  "fst (handler int_builtins (posts [marking] (no_hooks\<lparr>beforeOperation := [noop]\<rparr>)) ''T'' ctx0
          (request GET [] JUndefined)) = None
   \<and> calls_in BeforeOperation
        (trace (snd (handler int_builtins (posts [marking] (no_hooks\<lparr>beforeOperation := [noop]\<rparr>)) ''T'' ctx0
           (request GET [] JUndefined))))
     = [PluginCall ''marking'' BeforeOperation ctx0,
        HookCall BeforeOperation 0
          \<lparr>existingData = JUndefined, inputData = JUndefined, operation = Some Read,
             ctx = ctx0\<lparr>customVars := [(''flag'', JBool True)]\<rparr>\<rparr>]
   \<and> calls_in ValidateInput
        (trace (snd (handler int_builtins (posts [marking] (no_hooks\<lparr>beforeOperation := [noop]\<rparr>)) ''T'' ctx0
           (request GET [] JUndefined))))
     = []
   \<and> handler int_builtins
        ((posts [marking] (no_hooks\<lparr>beforeOperation := [noop]\<rparr>))
           \<lparr>activePlugins := map (returning (\<lambda>c. c\<lparr>customVars := []\<rparr>))
                               (activePlugins (posts [marking] (no_hooks\<lparr>beforeOperation := [noop]\<rparr>)))\<rparr>)
        ''T'' ctx0 (request GET [] JUndefined)
     = handler int_builtins (posts [marking] (no_hooks\<lparr>beforeOperation := [noop]\<rparr>)) ''T'' ctx0
         (request GET [] JUndefined)
   \<and> list_all (from_plugins (activePlugins (posts [marking] (no_hooks\<lparr>beforeOperation := [noop]\<rparr>))))
        (trace (snd (handler int_builtins (posts [marking] (no_hooks\<lparr>beforeOperation := [noop]\<rparr>)) ''T'' ctx0
           (request GET [] JUndefined))))"
proof -
  let ?R = "posts [marking] (no_hooks\<lparr>beforeOperation := [noop]\<rparr>)"
  let ?req = "request GET [] JUndefined"
  let ?g = "\<lambda>c :: int Context. c\<lparr>customVars := []\<rparr>"
  have ok: "fst (handler int_builtins ?R ''T'' ctx0 ?req) = None" by code_simp
  have vb: "(if runs_phase (req_method ?req) BeforeOperation
           then plugin_events BeforeOperation (activePlugins ?R)
                  ((shared_ctx (objects_before ?R ctx0 ?req BeforeOperation))\<lparr>currentHook := BeforeOperation\<rparr>)
                @ hook_events BeforeOperation 0 (hooks_in BeforeOperation (hooks ?R))
                    (args_after_plugins BeforeOperation (activePlugins ?R) (objects_before ?R ctx0 ?req BeforeOperation))
           else [])
       = [PluginCall ''marking'' BeforeOperation ctx0,
          HookCall BeforeOperation 0
            \<lparr>existingData = JUndefined, inputData = JUndefined, operation = Some Read,
               ctx = ctx0\<lparr>customVars := [(''flag'', JBool True)]\<rparr>\<rparr>]"
    by code_simp
  have vv: "(if runs_phase (req_method ?req) ValidateInput
           then plugin_events ValidateInput (activePlugins ?R)
                  ((shared_ctx (objects_before ?R ctx0 ?req ValidateInput))\<lparr>currentHook := ValidateInput\<rparr>)
                @ hook_events ValidateInput 0 (hooks_in ValidateInput (hooks ?R))
                    (args_after_plugins ValidateInput (activePlugins ?R) (objects_before ?R ctx0 ?req ValidateInput))
           else [])
       = []"
    by code_simp
  note tb = plugins_act_in_place [where B = int_builtins and R = ?R and now = "''T''" and c = ctx0
      and req = ?req and ph = BeforeOperation and g = ?g]
  note tv = plugins_act_in_place [where B = int_builtins and R = ?R and now = "''T''" and c = ctx0
      and req = ?req and ph = ValidateInput and g = ?g]
  from tb [THEN conjunct1, THEN mp, OF ok] vb
  have 1: "calls_in BeforeOperation (trace (snd (handler int_builtins ?R ''T'' ctx0 ?req)))
     = [PluginCall ''marking'' BeforeOperation ctx0,
        HookCall BeforeOperation 0
          \<lparr>existingData = JUndefined, inputData = JUndefined, operation = Some Read,
             ctx = ctx0\<lparr>customVars := [(''flag'', JBool True)]\<rparr>\<rparr>]"
    by (simp only:)
  from tv [THEN conjunct1, THEN mp, OF ok] vv
  have 2: "calls_in ValidateInput (trace (snd (handler int_builtins ?R ''T'' ctx0 ?req))) = []"
    by (simp only:)
  note 3 = tb [THEN conjunct2, THEN conjunct1]
  note 4 = tb [THEN conjunct2, THEN conjunct2]
  from ok 1 2 3 4 show ?thesis by blast
qed

text \<open>
  C10.  The claim: whenever the persistence result is a single record, the \<open>data\<close> of the
  event envelope is \<open>null\<close>, because an object has no \<open>length\<close>.  A record can have a field
  named \<open>length\<close>: creating a post with \<open>length: 117\<close> returns such a record, and the
  envelope carries it.
\<close>

theorem single_record_payload_counterexample:
  "resultData (snd (handler int_builtins (posts [] no_hooks) ''T'' ctx0
      (request POST [] (JObj [(''data'', JObj [(''title'', JStr ''Alien''), (''length'', JNum 117)])]))))
     = JObj [(''title'', JStr ''Alien''), (''length'', JNum 117)]
   \<and> triggers (trace (snd (handler int_builtins (posts [] no_hooks) ''T'' ctx0
      (request POST [] (JObj [(''data'', JObj [(''title'', JStr ''Alien''), (''length'', JNum 117)])])))))
     = [(''on_write'',
         \<lparr>timestamp = ''T'',
            data = JObj [(''title'', JStr ''Alien''), (''length'', JNum 117)],
            event = Some Create, collection = ''posts''\<rparr>)]"
  by code_simp

text \<open>
  C10, amended.  For every request that completes with a single record as the persistence
  result, the \<open>data\<close> of the event envelope is \<open>null\<close> unless the record has a property
  \<open>length\<close> that is greater than 0, in which case it is the record.
\<close>

theorem single_record_payload:
  assumes "fst (handler B R now c req) = None"
    and "resultData (snd (handler B R now c req)) = JObj m"
  shows "triggers (trace (snd (handler B R now c req)))
           = map (\<lambda>obj. (name obj,
                          \<lparr> timestamp = now,
                            data = (if positive_length B m then JObj m else JNull),
                            event = flippedCrudMapping (req_method req),
                            collection = cKey R \<rparr>))
               (filter (\<lambda>obj. fires_on obj (flippedCrudMapping (req_method req))) (mergedWebhooks R))"
proof -
  obtain r s' where h: "handler B R now c req = (r, s')" by (cases "handler B R now c req")
  from h show ?thesis
  proof (cases rule: handler_cases)
    case (early e)
    with assms h show ?thesis by simp
  next
    case (late e s1)
    with assms h show ?thesis by simp
  next
    case (completed s1 nonempty)
    from completed(4) assms(2) h have "nonempty = positive_length B m"
      by (auto simp: length_gt_zero_def positive_length_def)
    with completed assms h show ?thesis
      by (simp add: triggers_append triggers_quiet triggers_fan_out webhookTriggerPayload_def)
  qed
qed

theorem single_record_payload_witness:
  "fst (handler int_builtins (posts [] no_hooks) ''T'' ctx0
         (request DELETE [] (JObj [(''where'', JObj [(''id'', JNum 1)])]))) = None
   \<and> resultData (snd (handler int_builtins (posts [] no_hooks) ''T'' ctx0
         (request DELETE [] (JObj [(''where'', JObj [(''id'', JNum 1)])]))))
       = JObj [(''id'', JNum 1), (''title'', JStr ''A'')]
   \<and> \<not> positive_length int_builtins [(''id'', JNum 1), (''title'', JStr ''A'')]
   \<and> triggers (trace (snd (handler int_builtins (posts [] no_hooks) ''T'' ctx0
         (request DELETE [] (JObj [(''where'', JObj [(''id'', JNum 1)])])))))
       = [(''on_write'', \<lparr>timestamp = ''T'', data = JNull, event = Some Delete, collection = ''posts''\<rparr>)]"
proof -
  let ?req = "request DELETE [] (JObj [(''where'', JObj [(''id'', JNum 1)])])"
  let ?h = "handler int_builtins (posts [] no_hooks) ''T'' ctx0 ?req"
  have ok: "fst ?h = None" by code_simp
  have rd: "resultData (snd ?h) = JObj [(''id'', JNum 1), (''title'', JStr ''A'')]" by code_simp
  have np: "\<not> positive_length int_builtins [(''id'', JNum 1), (''title'', JStr ''A'')]" by code_simp
  have v: "map (\<lambda>obj. (name obj,
                          \<lparr> timestamp = ''T'',
                            data = (if positive_length int_builtins [(''id'', JNum 1), (''title'', JStr ''A'')]
                                    then JObj [(''id'', JNum 1), (''title'', JStr ''A'')] else (JNull :: int jsval)),
                            event = flippedCrudMapping (req_method ?req),
                            collection = cKey (posts [] no_hooks) \<rparr>))
               (filter (\<lambda>obj. fires_on obj (flippedCrudMapping (req_method ?req))) (mergedWebhooks (posts [] no_hooks)))
      = [(''on_write'', \<lparr>timestamp = ''T'', data = JNull, event = Some Delete, collection = ''posts''\<rparr>)]"
    by code_simp
  from single_record_payload [OF ok rd] v
  have "triggers (trace (snd ?h))
       = [(''on_write'', \<lparr>timestamp = ''T'', data = JNull, event = Some Delete, collection = ''posts''\<rparr>)]"
    by (simp only:)
  with ok rd np show ?thesis by blast
qed

end
